theory Spec2Isabelle
  imports Complex_Main
begin

section \<open>Long Range Attachments: data model\<close>

text \<open>
  The program keeps its simulation state in global vectors and runs three
  procedures over them: \<^verbatim>\<open>buildScene\<close>, \<^verbatim>\<open>projectLocal\<close> / \<^verbatim>\<open>projectLRA\<close> and
  \<^verbatim>\<open>simulate\<close>.  The embedding passes the globals explicitly as a record.

  A C++ \<^verbatim>\<open>float\<close> is modelled by a real number: every arithmetic operation is
  exact, so rounding, overflow to infinity and NaN are outside the model.  The
  one procedure of which a property turns on rounding, \<^verbatim>\<open>projectLRA\<close>, is given
  a second time in binary32 arithmetic (\<open>projectLRA32\<close> below).  The
  literals \<^verbatim>\<open>1e-6f\<close>, \<^verbatim>\<open>1e30f\<close>, \<^verbatim>\<open>0.99f\<close>, \<^verbatim>\<open>9.8f\<close> stand for the decimal numbers they
  denote.  Indices (\<^verbatim>\<open>int\<close> in the source, always non-negative) are natural
  numbers.
\<close>

datatype vec3 = Vec3 (vx: real) (vy: real) (vz: real)

text \<open>The glm operators used by the program, componentwise.\<close>

fun vadd :: "vec3 \<Rightarrow> vec3 \<Rightarrow> vec3" where
  "vadd (Vec3 a b c) (Vec3 a' b' c') = Vec3 (a + a') (b + b') (c + c')"

fun vsub :: "vec3 \<Rightarrow> vec3 \<Rightarrow> vec3" where
  "vsub (Vec3 a b c) (Vec3 a' b' c') = Vec3 (a - a') (b - b') (c - c')"

text \<open>\<^verbatim>\<open>vec * scalar\<close>, \<^verbatim>\<open>scalar * vec\<close> and \<^verbatim>\<open>vec / scalar\<close>.\<close>

fun vscale :: "vec3 \<Rightarrow> real \<Rightarrow> vec3" where
  "vscale (Vec3 a b c) k = Vec3 (a * k) (b * k) (c * k)"

fun sscale :: "real \<Rightarrow> vec3 \<Rightarrow> vec3" where
  "sscale k (Vec3 a b c) = Vec3 (k * a) (k * b) (k * c)"

fun vdiv :: "vec3 \<Rightarrow> real \<Rightarrow> vec3" where
  "vdiv (Vec3 a b c) k = Vec3 (a / k) (b / k) (c / k)"

text \<open>\<^verbatim>\<open>glm::length\<close>.\<close>

fun vlength :: "vec3 \<Rightarrow> real" where
  "vlength (Vec3 a b c) = sqrt (a * a + b * b + c * c)"

text \<open>
  \<^verbatim>\<open>struct Particle { vec3 p; vec3 old_p; vec3 v; float w; bool pinned = false; }\<close>
\<close>

record Particle =
  p :: vec3
  old_p :: vec3
  v :: vec3
  w :: real
  pinned :: bool

text \<open>\<^verbatim>\<open>struct LocalConstraint { int i, j; float restLen; }\<close>\<close>

record LocalConstraint =
  i :: nat
  j :: nat
  restLen :: real

text \<open>\<^verbatim>\<open>struct LRAConstraint { int particleIdx; int attachmentIdx; float maxDist; }\<close>\<close>

record LRAConstraint =
  particleIdx :: nat
  attachmentIdx :: nat
  maxDist :: real

text \<open>The four global vectors of the program.\<close>

record scene =
  P :: "Particle list"
  localConstraints :: "LocalConstraint list"
  lraConstraints :: "LRAConstraint list"
  attachmentIndices :: "nat list"

text \<open>Simulation constants of the source.\<close>

definition dt :: real where
  "dt = 1 / 60"

definition g :: vec3 where
  "g = Vec3 0 (- (98 / 10)) 0"

definition clothW :: nat where
  "clothW = 30"

definition clothH :: nat where
  "clothH = 30"

definition spacing :: real where
  "spacing = 5 / 100"

text \<open>The two thresholds and the drag factor written as literals in the source.\<close>

definition eps :: real where
  "eps = 1 / 10 ^ 6"

definition farAway :: real where
  "farAway = 10 ^ 30"

definition drag :: real where
  "drag = 99 / 100"

section \<open>Topology builder\<close>

text \<open>
  \<^verbatim>\<open>buildScene\<close> reads the constants \<^verbatim>\<open>clothW\<close>, \<^verbatim>\<open>clothH\<close> and \<^verbatim>\<open>spacing\<close>; here they
  are the parameters \<open>cw\<close>, \<open>ch\<close> and \<open>sp\<close>, and the program's own scene is
  \<open>buildScene clothW clothH spacing\<close>.  The grid dimensions are natural numbers:
  a loop body only runs with \<open>x < cw\<close> and \<open>y < ch\<close>, so the subtractions
  \<open>cw - 1\<close> and \<open>ch - 1 - y\<close> never truncate there.
\<close>

definition idx :: "nat \<Rightarrow> nat \<Rightarrow> nat \<Rightarrow> nat" where
  "idx cw x y = y * cw + x"

text \<open>
  \<^verbatim>\<open>P.resize(n)\<close> after \<^verbatim>\<open>P.clear()\<close> value-initialises every element.
\<close>

definition defaultParticle :: Particle where
  "defaultParticle =
     \<lparr>p = Vec3 0 0 0, old_p = Vec3 0 0 0, v = Vec3 0 0 0, w = 0, pinned = False\<rparr>"

text \<open>Body of the nested loop of step 1, for one grid coordinate.\<close>

definition initParticle :: "nat \<Rightarrow> nat \<Rightarrow> real \<Rightarrow> nat \<Rightarrow> nat \<Rightarrow> scene \<Rightarrow> scene" where
  "initParticle cw ch sp y x s =
     (let id = idx cw x y;
          q0 = P s ! id;
          q1 = q0\<lparr>p := Vec3 ((real x - real (cw - 1) * (1 / 2)) * sp)
                             (real (ch - 1 - y) * sp)
                             0\<rparr>;
          q2 = q1\<lparr>old_p := p q1\<rparr>;
          q3 = q2\<lparr>v := Vec3 0 0 0\<rparr>;
          isPinned = (y = 0 \<and> (x = 0 \<or> x = cw - 1))
      in if isPinned
         then s\<lparr>P := (P s)[id := q3\<lparr>w := 0, pinned := True\<rparr>],
                attachmentIndices := attachmentIndices s @ [id]\<rparr>
         else s\<lparr>P := (P s)[id := q3\<lparr>w := 1, pinned := False\<rparr>]\<rparr>)"

definition initParticles :: "nat \<Rightarrow> nat \<Rightarrow> real \<Rightarrow> scene \<Rightarrow> scene" where
  "initParticles cw ch sp s =
     fold (\<lambda>y. fold (initParticle cw ch sp y) [0..<cw]) [0..<ch] s"

text \<open>The lambda \<^verbatim>\<open>addEdge\<close> and the nested loop of step 2.\<close>

definition addEdge :: "nat \<Rightarrow> nat \<Rightarrow> scene \<Rightarrow> scene" where
  "addEdge a b s =
     (let d = vlength (vsub (p (P s ! a)) (p (P s ! b)))
      in s\<lparr>localConstraints := localConstraints s @ [\<lparr>i = a, j = b, restLen = d\<rparr>]\<rparr>)"

definition edgesAt :: "nat \<Rightarrow> nat \<Rightarrow> nat \<Rightarrow> nat \<Rightarrow> scene \<Rightarrow> scene" where
  "edgesAt cw ch y x s =
     (let s1 = (if x + 1 < cw then addEdge (idx cw x y) (idx cw (x + 1) y) s else s)
      in if y + 1 < ch then addEdge (idx cw x y) (idx cw x (y + 1)) s1 else s1)"

definition buildLocal :: "nat \<Rightarrow> nat \<Rightarrow> scene \<Rightarrow> scene" where
  "buildLocal cw ch s = fold (\<lambda>y. fold (edgesAt cw ch y) [0..<cw]) [0..<ch] s"

text \<open>
  Step 3.  The scan keeps \<^verbatim>\<open>bestAttach\<close> and \<^verbatim>\<open>minInitDist\<close>; the sentinel
  \<^verbatim>\<open>bestAttach == -1\<close> is \<open>None\<close>.
\<close>

definition restDist :: "Particle list \<Rightarrow> nat \<Rightarrow> nat \<Rightarrow> real" where
  "restDist ps k a = vlength (vsub (p (ps ! k)) (p (ps ! a)))"

definition scanStep :: "Particle list \<Rightarrow> nat \<Rightarrow> nat \<Rightarrow> nat option \<times> real \<Rightarrow> nat option \<times> real" where
  "scanStep ps k attachID acc =
     (let d = restDist ps k attachID
      in if d < snd acc then (Some attachID, d) else acc)"

definition lraAt :: "nat \<Rightarrow> scene \<Rightarrow> scene" where
  "lraAt k s =
     (if pinned (P s ! k) then s
      else case fold (scanStep (P s) k) (attachmentIndices s) (None, farAway) of
             (None, minInitDist) \<Rightarrow> s
           | (Some bestAttach, minInitDist) \<Rightarrow>
               s\<lparr>lraConstraints := lraConstraints s @
                    [\<lparr>particleIdx = k, attachmentIdx = bestAttach, maxDist = minInitDist\<rparr>]\<rparr>)"

definition buildLRA :: "scene \<Rightarrow> scene" where
  "buildLRA s = fold lraAt [0..<length (P s)] s"

text \<open>
  \<^verbatim>\<open>buildScene\<close> starts from whatever the globals hold, clears all four vectors
  and runs the three steps.
\<close>

definition buildScene :: "nat \<Rightarrow> nat \<Rightarrow> real \<Rightarrow> scene \<Rightarrow> scene" where
  "buildScene cw ch sp s =
     (let s0 = s\<lparr>P := replicate (cw * ch) defaultParticle,
                  localConstraints := [],
                  lraConstraints := [],
                  attachmentIndices := []\<rparr>
      in buildLRA (buildLocal cw ch (initParticles cw ch sp s0)))"

section \<open>Constraint projection\<close>

text \<open>
  Both solvers index \<^verbatim>\<open>P\<close> without a bounds check, which in C++ is undefined for
  an index outside the vector; \<open>xs ! k\<close> is unspecified there and \<open>xs[k := x]\<close>
  changes nothing.  The constraints that \<^verbatim>\<open>buildScene\<close> creates only hold indices
  of \<^verbatim>\<open>P\<close> (\<open>buildScene_local_in_range\<close>, \<open>lraInv_buildScene\<close> below), and a tick
  keeps the constraints and the length of \<^verbatim>\<open>P\<close>.

  \<^verbatim>\<open>p1\<close> and \<^verbatim>\<open>p2\<close> are references into \<^verbatim>\<open>P\<close>: the second write reads the vector
  as the first write left it.  \<^verbatim>\<open>dir\<close>, \<^verbatim>\<open>dist\<close>, \<^verbatim>\<open>wSum\<close> and \<^verbatim>\<open>dp\<close> are locals
  computed before either write.
\<close>

definition projectLocal :: "LocalConstraint \<Rightarrow> scene \<Rightarrow> scene" where
  "projectLocal c s =
     (let dir = vsub (p (P s ! i c)) (p (P s ! j c));
          dist = vlength dir
      in if dist < eps then s
         else
           let correction = (dist - restLen c) * (1 - 0);
               grad = vdiv dir dist;
               wSum = w (P s ! i c) + w (P s ! j c)
           in if wSum < eps then s
              else
                let dp = sscale (- correction) grad;
                    P1 = (if \<not> pinned (P s ! i c)
                          then (P s)[i c := (P s ! i c)
                                 \<lparr>p := vadd (p (P s ! i c)) (vscale dp (w (P s ! i c) / wSum))\<rparr>]
                          else P s);
                    P2 = (if \<not> pinned (P1 ! j c)
                          then P1[j c := (P1 ! j c)
                                 \<lparr>p := vsub (p (P1 ! j c)) (vscale dp (w (P1 ! j c) / wSum))\<rparr>]
                          else P1)
                in s\<lparr>P := P2\<rparr>)"

text \<open>\<^verbatim>\<open>projectLRA\<close> reads the global \<^verbatim>\<open>g_lraSlack\<close>, here its first argument.\<close>

definition projectLRA :: "real \<Rightarrow> LRAConstraint \<Rightarrow> scene \<Rightarrow> scene" where
  "projectLRA g_lraSlack c s =
     (let dir = vsub (p (P s ! particleIdx c)) (p (P s ! attachmentIdx c));
          currentDist = vlength dir;
          limit = maxDist c * g_lraSlack
      in if currentDist > limit
         then if currentDist < eps then s
              else
                let correction = vscale dir (limit / currentDist)
                in s\<lparr>P := (P s)[particleIdx c := (P s ! particleIdx c)
                            \<lparr>p := vadd (p (P s ! attachmentIdx c)) correction\<rparr>]\<rparr>
         else s)"

section \<open>Step driver\<close>

text \<open>The bodies of the first and the last loop of \<^verbatim>\<open>simulate\<close>.\<close>

definition integrate :: "Particle \<Rightarrow> Particle" where
  "integrate q =
     (if pinned q then q
      else
        let q1 = q\<lparr>v := vadd (v q) (vscale g dt)\<rparr>;
            q2 = q1\<lparr>old_p := p q1\<rparr>
        in q2\<lparr>p := vadd (p q2) (vscale (v q2) dt)\<rparr>)"

definition updateVelocity :: "Particle \<Rightarrow> Particle" where
  "updateVelocity q =
     (if pinned q then q
      else
        let q1 = q\<lparr>v := vdiv (vsub (p q) (old_p q)) dt\<rparr>
        in q1\<lparr>v := vscale (v q1) drag\<rparr>)"

text \<open>One pass of the projection loop: (A) local constraints, (B) LRA constraints.\<close>

definition projectPass :: "bool \<Rightarrow> real \<Rightarrow> scene \<Rightarrow> scene" where
  "projectPass g_useLRA g_lraSlack s =
     (let s1 = fold projectLocal (localConstraints s) s
      in if g_useLRA then fold (projectLRA g_lraSlack) (lraConstraints s1) s1 else s1)"

text \<open>
  \<^verbatim>\<open>simulate\<close> reads the globals \<^verbatim>\<open>g_iterations\<close>, \<^verbatim>\<open>g_useLRA\<close> and \<^verbatim>\<open>g_lraSlack\<close>.
  The loop \<^verbatim>\<open>for (iter = 0; iter < g_iterations; ++iter)\<close> runs \<open>nat g_iterations\<close>
  times: not at all when the count is zero or negative.
\<close>

definition simulate :: "int \<Rightarrow> bool \<Rightarrow> real \<Rightarrow> scene \<Rightarrow> scene" where
  "simulate g_iterations g_useLRA g_lraSlack s =
     (let s1 = s\<lparr>P := map integrate (P s)\<rparr>;
          s2 = (projectPass g_useLRA g_lraSlack ^^ nat g_iterations) s1
      in s2\<lparr>P := map updateVelocity (P s2)\<rparr>)"

text \<open>
  A run: the ticks of the idle callback, each with the parameters the globals
  hold at that tick.
\<close>

fun ticks :: "(int \<times> bool \<times> real) list \<Rightarrow> scene \<Rightarrow> scene" where
  "ticks [] s = s"
| "ticks ((n, useLRA, slack) # ts) s = ticks ts (simulate n useLRA slack s)"

section \<open>Notions used to state the properties\<close>

text \<open>Current distance between the particle of an LRA constraint and its anchor.\<close>

definition lraDist :: "scene \<Rightarrow> LRAConstraint \<Rightarrow> real" where
  "lraDist s c = vlength (vsub (p (P s ! particleIdx c)) (p (P s ! attachmentIdx c)))"

text \<open>The vector \<^verbatim>\<open>dp\<close> that \<^verbatim>\<open>projectLocal\<close> computes for a constraint.\<close>

definition localDp :: "LocalConstraint \<Rightarrow> scene \<Rightarrow> vec3" where
  "localDp c s =
     (let dir = vsub (p (P s ! i c)) (p (P s ! j c));
          dist = vlength dir
      in sscale (- ((dist - restLen c) * (1 - 0))) (vdiv dir dist))"

subsection \<open>The three stages of a tick, as the specification words them\<close>

text \<open>
  Predict: every non-pinned particle gets gravity times the timestep added to its
  velocity, its position copied into the previous position, and its position
  advanced by the new velocity times the timestep.
\<close>

definition stagePredict :: "scene \<Rightarrow> scene" where
  "stagePredict s =
     s\<lparr>P := map (\<lambda>q. if pinned q then q
                      else q\<lparr>v := vadd (v q) (vscale g dt),
                             old_p := p q,
                             p := vadd (p q) (vscale (vadd (v q) (vscale g dt)) dt)\<rparr>)
                (P s)\<rparr>"

text \<open>
  One projection pass: the local solver on every local constraint in construction
  order, then, if LRA is enabled, the LRA solver on every LRA constraint in
  construction order.
\<close>

definition stageProject :: "bool \<Rightarrow> real \<Rightarrow> scene \<Rightarrow> scene" where
  "stageProject lraEnabled slack s =
     (let s1 = foldl (\<lambda>t c. projectLocal c t) s (localConstraints s)
      in if lraEnabled then foldl (\<lambda>t c. projectLRA slack c t) s1 (lraConstraints s) else s1)"

text \<open>
  Reconcile: every non-pinned particle gets the velocity
  \<open>(position - previousPosition) / timestep\<close> times the damping factor.
\<close>

definition stageReconcile :: "scene \<Rightarrow> scene" where
  "stageReconcile s =
     s\<lparr>P := map (\<lambda>q. if pinned q then q
                      else q\<lparr>v := vscale (vdiv (vsub (p q) (old_p q)) dt) drag\<rparr>)
                (P s)\<rparr>"

subsection \<open>Relations between the scene before and after a step\<close>

text \<open>
  \<open>sameStatic s t\<close>: \<open>t\<close> has the constraint vectors and the anchor list of \<open>s\<close>, as
  many particles, and every particle has kept its pin flag and inverse mass.
\<close>

definition sameStatic :: "scene \<Rightarrow> scene \<Rightarrow> bool" where
  "sameStatic s t \<longleftrightarrow>
     localConstraints t = localConstraints s \<and>
     lraConstraints t = lraConstraints s \<and>
     attachmentIndices t = attachmentIndices s \<and>
     length (P t) = length (P s) \<and>
     (\<forall>k<length (P s). pinned (P t ! k) = pinned (P s ! k) \<and> w (P t ! k) = w (P s ! k))"

text \<open>\<open>pinsKept s t\<close>: every particle pinned in \<open>s\<close> is the same particle in \<open>t\<close>.\<close>

definition pinsKept :: "scene \<Rightarrow> scene \<Rightarrow> bool" where
  "pinsKept s t \<longleftrightarrow> (\<forall>k<length (P s). pinned (P s ! k) \<longrightarrow> P t ! k = P s ! k)"

text \<open>
  What \<^verbatim>\<open>buildScene\<close> establishes for the LRA constraints and every tick keeps:
  no two constraints move the same particle, the indices are within \<open>P\<close>, the
  particle is free, the anchor is pinned, and the maximal distance is not negative.
\<close>

definition lraInv :: "scene \<Rightarrow> bool" where
  "lraInv s \<longleftrightarrow>
     distinct (map particleIdx (lraConstraints s)) \<and>
     (\<forall>c\<in>set (lraConstraints s).
        particleIdx c < length (P s) \<and> attachmentIdx c < length (P s) \<and>
        \<not> pinned (P s ! particleIdx c) \<and> pinned (P s ! attachmentIdx c) \<and> 0 \<le> maxDist c)"

text \<open>The endpoints of every local constraint are indices of \<open>P\<close>.\<close>

definition localInRange :: "scene \<Rightarrow> bool" where
  "localInRange s \<longleftrightarrow> (\<forall>c\<in>set (localConstraints s). i c < length (P s) \<and> j c < length (P s))"

subsection \<open>Closed forms of the builder's loops\<close>

text \<open>
  The particle that step 1 of \<^verbatim>\<open>buildScene\<close> stores at index \<open>k\<close>: the loop body
  at \<open>x = k mod cw\<close>, \<open>y = k div cw\<close>.
\<close>

definition gridParticle :: "nat \<Rightarrow> nat \<Rightarrow> real \<Rightarrow> nat \<Rightarrow> Particle" where
  "gridParticle cw ch sp k =
     (let x = k mod cw; y = k div cw;
          pos = Vec3 ((real x - real (cw - 1) * (1 / 2)) * sp) (real (ch - 1 - y) * sp) 0;
          isPinned = (y = 0 \<and> (x = 0 \<or> x = cw - 1))
      in \<lparr>p = pos, old_p = pos, v = Vec3 0 0 0, w = (if isPinned then 0 else 1), pinned = isPinned\<rparr>)"

text \<open>The constraints that one round of the loop of step 3 appends for particle \<open>k\<close>.\<close>

definition lraFor :: "Particle list \<Rightarrow> nat list \<Rightarrow> nat \<Rightarrow> LRAConstraint list" where
  "lraFor ps as k =
     (if pinned (ps ! k) then []
      else case fold (scanStep ps k) as (None, farAway) of
             (None, m) \<Rightarrow> []
           | (Some b, m) \<Rightarrow> [\<lparr>particleIdx = k, attachmentIdx = b, maxDist = m\<rparr>])"

subsection \<open>Two small scenes for concrete instances\<close>

text \<open>
  A free particle at distance 3 from a pinned one, joined by a local constraint
  of rest length 1 and an LRA constraint of maximal distance 1.
\<close>

definition exLocal :: LocalConstraint where
  "exLocal = \<lparr>i = 0, j = 1, restLen = 1\<rparr>"

definition exLRA :: LRAConstraint where
  "exLRA = \<lparr>particleIdx = 0, attachmentIdx = 1, maxDist = 1\<rparr>"

definition exFree :: Particle where
  "exFree = \<lparr>p = Vec3 3 0 0, old_p = Vec3 3 0 0, v = Vec3 0 0 0, w = 1, pinned = False\<rparr>"

definition exPinned :: Particle where
  "exPinned = \<lparr>p = Vec3 0 0 0, old_p = Vec3 0 0 0, v = Vec3 0 0 0, w = 0, pinned = True\<rparr>"

definition exScene :: scene where
  "exScene =
     \<lparr>P = [exFree, exPinned],
      localConstraints = [exLocal],
      lraConstraints = [exLRA],
      attachmentIndices = [1]\<rparr>"

text \<open>
  The same two particles, the free one half a micrometre from the pinned one,
  with constraints of length 0.
\<close>

definition nearLocal :: LocalConstraint where
  "nearLocal = \<lparr>i = 0, j = 1, restLen = 0\<rparr>"

definition nearLRA :: LRAConstraint where
  "nearLRA = \<lparr>particleIdx = 0, attachmentIdx = 1, maxDist = 0\<rparr>"

definition nearScene :: scene where
  "nearScene =
     \<lparr>P = [exFree\<lparr>p := Vec3 (1 / 2000000) 0 0\<rparr>, exPinned],
      localConstraints = [nearLocal],
      lraConstraints = [nearLRA],
      attachmentIndices = [1]\<rparr>"

text \<open>Two pinned particles at distance 1, joined by a local constraint of rest length 2.\<close>

definition pinLocal :: LocalConstraint where
  "pinLocal = \<lparr>i = 0, j = 1, restLen = 2\<rparr>"

definition pinScene :: scene where
  "pinScene =
     \<lparr>P = [exPinned\<lparr>p := Vec3 1 0 0\<rparr>, exPinned],
      localConstraints = [pinLocal],
      lraConstraints = [],
      attachmentIndices = [0, 1]\<rparr>"

section \<open>The LRA projection in binary32 arithmetic\<close>

text \<open>
  Where a property depends on the rounding of \<^verbatim>\<open>float\<close>, \<^verbatim>\<open>projectLRA\<close> is also
  given in the arithmetic of the machine: IEEE 754 binary32 with rounding to
  nearest, ties to even, as a function \<open>fl32\<close> on the reals that is applied
  after every operation.  The model covers the normal and the subnormal range;
  overflow to infinity and NaN are outside it.
\<close>

text \<open>\<open>pow2 e\<close> is the power of two with the integer exponent \<open>e\<close>.\<close>

definition pow2 :: "int \<Rightarrow> real" where
  "pow2 e = (if 0 \<le> e then 2 ^ nat e else 1 / 2 ^ nat (- e))"

text \<open>Rounding of a real to the nearest integer, a tie going to the even one.\<close>

definition rne :: "real \<Rightarrow> int" where
  "rne y =
     (let f = \<lfloor>y\<rfloor>; r = y - of_int f
      in if r < 1 / 2 then f
         else if 1 / 2 < r then f + 1
         else if even f then f else f + 1)"

text \<open>
  The exponent of the binade of \<open>x\<close>, not below the exponent \<open>- 126\<close> of the least
  normal number: below it the subnormal numbers keep the spacing of that binade.
\<close>

definition expo32 :: "real \<Rightarrow> int" where
  "expo32 x = max (- 126) \<lfloor>log 2 \<bar>x\<bar>\<rfloor>"

text \<open>
  The binary32 number nearest to \<open>x\<close>: a multiple of the unit in the last place of
  the binade of \<open>x\<close>, which is 23 binary places below its exponent.
\<close>

definition fl32 :: "real \<Rightarrow> real" where
  "fl32 x =
     (if x = 0 then 0
      else of_int (rne (x / pow2 (expo32 x - 23))) * pow2 (expo32 x - 23))"


fun vsub32 :: "vec3 \<Rightarrow> vec3 \<Rightarrow> vec3" where
  "vsub32 (Vec3 a b c) (Vec3 a' b' c') = Vec3 (fl32 (a - a')) (fl32 (b - b')) (fl32 (c - c'))"


text \<open>
  \<^verbatim>\<open>glm::length(v)\<close> is \<^verbatim>\<open>sqrt(dot(v, v))\<close>, and \<^verbatim>\<open>dot\<close> adds the three products from
  left to right: \<^verbatim>\<open>tmp.x + tmp.y + tmp.z\<close>.  Every product, every sum and the
  square root is rounded.
\<close>

fun vlength32 :: "vec3 \<Rightarrow> real" where
  "vlength32 (Vec3 a b c) =
     fl32 (sqrt (fl32 (fl32 (fl32 (a * a) + fl32 (b * b)) + fl32 (c * c))))"



text \<open>The distance of an LRA constraint as \<^verbatim>\<open>projectLRA\<close> computes it.\<close>

definition lraDist32 :: "scene \<Rightarrow> LRAConstraint \<Rightarrow> real" where
  "lraDist32 s c = vlength32 (vsub32 (p (P s ! particleIdx c)) (p (P s ! attachmentIdx c)))"

text \<open>
  The scene \<open>exScene\<close> with the free particle at \<open>(3, 4, 0)\<close>: its distance to the
  anchor is 5 and its limit is 1, all of them binary32 numbers.
\<close>

definition offScene :: scene where
  "offScene =
     \<lparr>P = [exFree\<lparr>p := Vec3 3 4 0\<rparr>, exPinned],
      localConstraints = [exLocal],
      lraConstraints = [exLRA],
      attachmentIndices = [1]\<rparr>"

section \<open>Vector arithmetic\<close>

lemma vsub_vadd_cancel: "vsub (vadd a b) a = b"
  by (cases a; cases b) simp

lemma vlength_vscale: "vlength (vscale u k) = vlength u * \<bar>k\<bar>"
proof (cases u)
  case (Vec3 a b c)
  have "a * k * (a * k) + b * k * (b * k) + c * k * (c * k) = (a * a + b * b + c * c) * (k * k)"
    by (simp add: algebra_simps)
  then have "sqrt (a * k * (a * k) + b * k * (b * k) + c * k * (c * k)) =
             sqrt (a * a + b * b + c * c) * sqrt (k * k)"
    by (simp only: real_sqrt_mult)
  then show ?thesis using Vec3 by simp
qed

lemma vlength_nonneg: "0 \<le> vlength u"
  by (cases u) simp

lemma vlength_x: "vlength (Vec3 a 0 0) = \<bar>a\<bar>"
  by simp

lemma vlength_zero: "vlength (vsub a a) = 0"
  by (cases a) simp

lemma vscale_one: "vscale u 1 = u"
  by (cases u) simp

lemma vscale_zero: "vscale u 0 = Vec3 0 0 0"
  by (cases u) simp

section \<open>The two example scenes, evaluated\<close>

lemma exScene_dist: "lraDist exScene exLRA = 3"
  by (simp add: lraDist_def exScene_def exLRA_def exFree_def exPinned_def vlength_x
      del: vlength.simps)

lemma exScene_local_dist:
  "vlength (vsub (p (P exScene ! i exLocal)) (p (P exScene ! j exLocal))) = 3"
  by (simp add: exScene_def exLocal_def exFree_def exPinned_def vlength_x del: vlength.simps)

lemma nearScene_local_dist:
  "vlength (vsub (p (P nearScene ! i nearLocal)) (p (P nearScene ! j nearLocal))) = 1 / 2000000"
  by (simp add: nearScene_def nearLocal_def exFree_def exPinned_def vlength_x del: vlength.simps)

lemma pinScene_local_dist:
  "vlength (vsub (p (P pinScene ! i pinLocal)) (p (P pinScene ! j pinLocal))) = 1"
  by (simp add: pinScene_def pinLocal_def exPinned_def vlength_x del: vlength.simps)

lemma exScene_projectLRA:
  "projectLRA 1 exLRA exScene = exScene\<lparr>P := [exFree\<lparr>p := Vec3 1 0 0\<rparr>, exPinned]\<rparr>"
proof -
  have "vlength (vsub (p (P exScene ! particleIdx exLRA)) (p (P exScene ! attachmentIdx exLRA))) = 3"
    using exScene_dist by (simp add: lraDist_def)
  then show ?thesis
    by (simp add: projectLRA_def Let_def eps_def)
       (simp add: exScene_def exLRA_def exFree_def exPinned_def)
qed

section \<open>The LRA projection\<close>

subsection \<open>What one projection may write\<close>

lemma projectLRA_P:
  "\<exists>u. P (projectLRA sl c s) = (P s)[particleIdx c := (P s ! particleIdx c)\<lparr>p := u\<rparr>]"
proof (cases "P (projectLRA sl c s) = P s")
  case True
  have "(P s)[particleIdx c := (P s ! particleIdx c)\<lparr>p := p (P s ! particleIdx c)\<rparr>] = P s"
    by simp
  with True show ?thesis by metis
next
  case False
  then show ?thesis
    by (auto simp add: projectLRA_def Let_def split: if_splits)
qed

lemma nth_update_p_fields:
  "old_p (xs[n := (xs ! n)\<lparr>p := u\<rparr>] ! k) = old_p (xs ! k) \<and>
   v (xs[n := (xs ! n)\<lparr>p := u\<rparr>] ! k) = v (xs ! k) \<and>
   w (xs[n := (xs ! n)\<lparr>p := u\<rparr>] ! k) = w (xs ! k) \<and>
   pinned (xs[n := (xs ! n)\<lparr>p := u\<rparr>] ! k) = pinned (xs ! k)"
  by (cases "length xs \<le> n"; cases "k = n"; simp add: list_update_beyond)

lemma projectLRA_rest:
  "localConstraints (projectLRA sl c s) = localConstraints s"
  "lraConstraints (projectLRA sl c s) = lraConstraints s"
  "attachmentIndices (projectLRA sl c s) = attachmentIndices s"
  "length (P (projectLRA sl c s)) = length (P s)"
  by (simp_all add: projectLRA_def Let_def)

lemma projectLRA_other: "k \<noteq> particleIdx c \<Longrightarrow> P (projectLRA sl c s) ! k = P s ! k"
  using projectLRA_P [of sl c s] by auto

lemma projectLRA_fields:
  "old_p (P (projectLRA sl c s) ! k) = old_p (P s ! k) \<and>
   v (P (projectLRA sl c s) ! k) = v (P s ! k) \<and>
   w (P (projectLRA sl c s) ! k) = w (P s ! k) \<and>
   pinned (P (projectLRA sl c s) ! k) = pinned (P s ! k)"
proof -
  obtain u where "P (projectLRA sl c s) = (P s)[particleIdx c := (P s ! particleIdx c)\<lparr>p := u\<rparr>]"
    using projectLRA_P by blast
  then show ?thesis by (simp only: nth_update_p_fields)
qed

text \<open>
  The anchor keeps its value even when a constraint names the same index twice:
  the distance is then 0, and either it is within the limit or it is below \<open>eps\<close>.
\<close>

lemma projectLRA_anchor: "P (projectLRA sl c s) ! attachmentIdx c = P s ! attachmentIdx c"
proof (cases "attachmentIdx c = particleIdx c")
  case True
  have "vlength (vsub (p (P s ! particleIdx c)) (p (P s ! particleIdx c))) = 0"
    by (rule vlength_zero)
  then show ?thesis using True by (simp add: projectLRA_def Let_def eps_def)
next
  case False
  then show ?thesis by (simp add: projectLRA_other)
qed

text \<open>
  Claim C10.  One call of \<^verbatim>\<open>projectLRA\<close> writes at most the position of the
  particle at \<open>particleIdx\<close>: the three other vectors and the length of \<open>P\<close> are
  as before, every other particle is as before, the anchor is as before, and the
  moved particle keeps its previous position, velocity, inverse mass and pin flag.
\<close>

theorem projectLRA_frame:
  "localConstraints (projectLRA sl c s) = localConstraints s \<and>
   lraConstraints (projectLRA sl c s) = lraConstraints s \<and>
   attachmentIndices (projectLRA sl c s) = attachmentIndices s \<and>
   length (P (projectLRA sl c s)) = length (P s) \<and>
   (\<forall>k. k \<noteq> particleIdx c \<longrightarrow> P (projectLRA sl c s) ! k = P s ! k) \<and>
   P (projectLRA sl c s) ! attachmentIdx c = P s ! attachmentIdx c \<and>
   old_p (P (projectLRA sl c s) ! particleIdx c) = old_p (P s ! particleIdx c) \<and>
   v (P (projectLRA sl c s) ! particleIdx c) = v (P s ! particleIdx c) \<and>
   w (P (projectLRA sl c s) ! particleIdx c) = w (P s ! particleIdx c) \<and>
   pinned (P (projectLRA sl c s) ! particleIdx c) = pinned (P s ! particleIdx c)"
  by (simp add: projectLRA_rest projectLRA_other projectLRA_anchor projectLRA_fields)

text \<open>
  In the first example scene the projection does move particle 0, and particle 1
  (which is not the constraint's particle) is as before.
\<close>

theorem projectLRA_frame_witness:
  "(1::nat) \<noteq> particleIdx exLRA \<and>
   P (projectLRA 1 exLRA exScene) ! 1 = P exScene ! 1 \<and>
   projectLRA 1 exLRA exScene \<noteq> exScene"
proof -
  have "\<forall>k. k \<noteq> particleIdx exLRA \<longrightarrow> P (projectLRA 1 exLRA exScene) ! k = P exScene ! k"
    using projectLRA_frame [of 1 exLRA exScene] by blast
  moreover have "(1::nat) \<noteq> particleIdx exLRA"
    by (simp add: exLRA_def)
  ultimately have "P (projectLRA 1 exLRA exScene) ! 1 = P exScene ! 1"
    by blast
  moreover have "projectLRA 1 exLRA exScene \<noteq> exScene"
    by (simp add: exScene_projectLRA) (simp add: exScene_def exFree_def)
  ultimately show ?thesis
    using \<open>(1::nat) \<noteq> particleIdx exLRA\<close> by blast
qed

subsection \<open>When a projection corrects, and where it puts the particle\<close>

lemma projectLRA_noop:
  "lraDist s c \<le> maxDist c * sl \<or> lraDist s c < eps \<Longrightarrow> projectLRA sl c s = s"
  by (auto simp add: projectLRA_def lraDist_def Let_def)

lemma projectLRA_moves:
  assumes "particleIdx c < length (P s)" "maxDist c * sl < lraDist s c" "eps \<le> lraDist s c"
  shows "p (P (projectLRA sl c s) ! particleIdx c) =
         vadd (p (P s ! attachmentIdx c))
           (vscale (vsub (p (P s ! particleIdx c)) (p (P s ! attachmentIdx c)))
              (maxDist c * sl / lraDist s c))"
  using assms by (simp add: projectLRA_def lraDist_def Let_def)

lemma projectLRA_on_sphere:
  assumes "particleIdx c < length (P s)" "maxDist c * sl < lraDist s c" "eps \<le> lraDist s c"
    and "0 \<le> maxDist c * sl"
  shows "lraDist (projectLRA sl c s) c = maxDist c * sl"
proof -
  have pos: "0 < lraDist s c" using assms(3) by (simp add: eps_def)
  have "lraDist (projectLRA sl c s) c =
        vlength (vsub (p (P (projectLRA sl c s) ! particleIdx c)) (p (P s ! attachmentIdx c)))"
    by (simp add: lraDist_def projectLRA_anchor)
  also have "\<dots> = vlength (vscale (vsub (p (P s ! particleIdx c)) (p (P s ! attachmentIdx c)))
              (maxDist c * sl / lraDist s c))"
    by (simp only: projectLRA_moves [OF assms(1-3)] vsub_vadd_cancel)
  also have "\<dots> = lraDist s c * \<bar>maxDist c * sl / lraDist s c\<bar>"
    by (simp only: vlength_vscale lraDist_def)
  also have "\<dots> = maxDist c * sl"
    using pos assms(4) by simp
  finally show ?thesis .
qed

subsection \<open>The projection in binary32 arithmetic\<close>

text \<open>Evaluation of \<open>fl32\<close> once the binade of the argument is known.\<close>

lemma pow2_powr: "pow2 e = 2 powr (of_int e)"
  by (simp add: pow2_def powr_real_of_int divide_inverse)

lemma expo32_eq:
  assumes "pow2 e \<le> \<bar>x\<bar>" and "\<bar>x\<bar> < pow2 (e + 1)" and "- 126 \<le> e"
  shows "expo32 x = e"
proof -
  have "0 < pow2 e" by (simp add: pow2_def)
  with assms(1) have pos: "0 < \<bar>x\<bar>" by linarith
  have "2 powr (of_int e) \<le> \<bar>x\<bar> \<and> \<bar>x\<bar> < 2 powr (of_int e + 1)"
    using assms(1,2) by (simp add: pow2_powr)
  then have "\<lfloor>log 2 \<bar>x\<bar>\<rfloor> = e"
    using pos by (simp add: floor_log_eq_powr_iff)
  then show ?thesis using assms(3) by (simp add: expo32_def)
qed

lemma fl32_eval:
  assumes "pow2 e \<le> \<bar>x\<bar>" and "\<bar>x\<bar> < pow2 (e + 1)" and "- 126 \<le> e"
  shows "fl32 x = of_int (rne (x / pow2 (e - 23))) * pow2 (e - 23)"
proof -
  have "0 < pow2 e" by (simp add: pow2_def)
  with assms(1) have "x \<noteq> 0" by auto
  then show ?thesis by (simp add: fl32_def expo32_eq [OF assms])
qed

lemma fl32_zero: "fl32 0 = 0"
  by (simp add: fl32_def)


lemma fl32_3: "fl32 3 = 3"
  by (subst fl32_eval [of 1]) (simp_all add: pow2_def rne_def)

lemma fl32_4: "fl32 4 = 4"
  by (subst fl32_eval [of 2]) (simp_all add: pow2_def rne_def)

lemma fl32_5: "fl32 5 = 5"
  by (subst fl32_eval [of 2]) (simp_all add: pow2_def rne_def)

lemma fl32_9: "fl32 9 = 9"
  by (subst fl32_eval [of 3]) (simp_all add: pow2_def rne_def)

lemma fl32_16: "fl32 16 = 16"
  by (subst fl32_eval [of 4]) (simp_all add: pow2_def rne_def)

lemma fl32_25: "fl32 25 = 25"
  by (subst fl32_eval [of 4]) (simp_all add: pow2_def rne_def)







lemma sqrt_25: "sqrt 25 = 5"
  using real_sqrt_abs2 [of 5] by simp

lemma offScene_dir32:
  "vsub32 (p (P offScene ! particleIdx exLRA)) (p (P offScene ! attachmentIdx exLRA)) = Vec3 3 4 0"
  by (simp add: offScene_def exLRA_def exFree_def exPinned_def fl32_3 fl32_4 fl32_zero)

lemma vlength32_345: "vlength32 (Vec3 3 4 0) = 5"
  by (simp add: fl32_9 fl32_16 fl32_25 fl32_zero sqrt_25 fl32_5)

lemma offScene_dist32: "lraDist32 offScene exLRA = 5"
  by (simp only: lraDist32_def offScene_dir32 vlength32_345)










subsection \<open>The projection is unilateral\<close>




section \<open>The local projection\<close>

text \<open>
  Claim C7.  The degenerate cases of \<^verbatim>\<open>projectLocal\<close> return the scene as it
  is: a current distance below \<open>eps\<close>, a sum of inverse masses below \<open>eps\<close>, and
  two pinned endpoints.  The procedure has no error result; it returns a scene
  in every case.
\<close>

theorem projectLocal_degenerate:
  "(vlength (vsub (p (P s ! i c)) (p (P s ! j c))) < eps \<longrightarrow> projectLocal c s = s) \<and>
   (w (P s ! i c) + w (P s ! j c) < eps \<longrightarrow> projectLocal c s = s) \<and>
   (pinned (P s ! i c) \<and> pinned (P s ! j c) \<longrightarrow> projectLocal c s = s)"
  by (simp add: projectLocal_def Let_def)

text \<open>
  In the second example scene the distance is below \<open>eps\<close>; in the third the
  distance is 1 but both endpoints are pinned and their inverse masses sum to 0.
\<close>

theorem projectLocal_degenerate_witness:
  "vlength (vsub (p (P nearScene ! i nearLocal)) (p (P nearScene ! j nearLocal))) < eps \<and>
   projectLocal nearLocal nearScene = nearScene \<and>
   \<not> vlength (vsub (p (P pinScene ! i pinLocal)) (p (P pinScene ! j pinLocal))) < eps \<and>
   w (P pinScene ! i pinLocal) + w (P pinScene ! j pinLocal) < eps \<and>
   pinned (P pinScene ! i pinLocal) \<and> pinned (P pinScene ! j pinLocal) \<and>
   projectLocal pinLocal pinScene = pinScene"
proof -
  have a: "vlength (vsub (p (P nearScene ! i nearLocal)) (p (P nearScene ! j nearLocal))) < eps"
    by (simp add: nearScene_local_dist eps_def)
  have b: "\<not> vlength (vsub (p (P pinScene ! i pinLocal)) (p (P pinScene ! j pinLocal))) < eps"
    by (simp add: pinScene_local_dist eps_def)
  have c: "w (P pinScene ! i pinLocal) + w (P pinScene ! j pinLocal) < eps \<and>
           pinned (P pinScene ! i pinLocal) \<and> pinned (P pinScene ! j pinLocal)"
    by (simp add: pinScene_def pinLocal_def exPinned_def eps_def)
  from a b c show ?thesis
    using projectLocal_degenerate [of nearScene nearLocal]
      projectLocal_degenerate [of pinScene pinLocal] by blast
qed

subsection \<open>How the correction is shared between the endpoints\<close>

lemma projectLocal_rest:
  "localConstraints (projectLocal c s) = localConstraints s"
  "lraConstraints (projectLocal c s) = lraConstraints s"
  "attachmentIndices (projectLocal c s) = attachmentIndices s"
  "length (P (projectLocal c s)) = length (P s)"
  by (simp_all add: projectLocal_def Let_def)

lemma projectLocal_distinct:
  "eps \<le> vlength (vsub (p (P s ! i c)) (p (P s ! j c))) \<Longrightarrow> i c \<noteq> j c"
  by (auto simp add: vlength_zero eps_def)

lemma projectLocal_i:
  assumes "i c < length (P s)"
    and "eps \<le> vlength (vsub (p (P s ! i c)) (p (P s ! j c)))"
    and "eps \<le> w (P s ! i c) + w (P s ! j c)"
  shows "p (P (projectLocal c s) ! i c) =
         (if pinned (P s ! i c) then p (P s ! i c)
          else vadd (p (P s ! i c))
                 (vscale (localDp c s) (w (P s ! i c) / (w (P s ! i c) + w (P s ! j c)))))"
proof -
  have ne: "i c \<noteq> j c" using assms(2) by (rule projectLocal_distinct)
  show ?thesis
    using assms ne by (simp add: projectLocal_def localDp_def Let_def not_less [symmetric])
qed

lemma projectLocal_j:
  assumes "j c < length (P s)"
    and "eps \<le> vlength (vsub (p (P s ! i c)) (p (P s ! j c)))"
    and "eps \<le> w (P s ! i c) + w (P s ! j c)"
  shows "p (P (projectLocal c s) ! j c) =
         (if pinned (P s ! j c) then p (P s ! j c)
          else vsub (p (P s ! j c))
                 (vscale (localDp c s) (w (P s ! j c) / (w (P s ! i c) + w (P s ! j c)))))"
proof -
  have ne: "i c \<noteq> j c" using assms(2) by (rule projectLocal_distinct)
  show ?thesis
    using assms ne by (simp add: projectLocal_def localDp_def Let_def not_less [symmetric])
qed

lemma projectLocal_pinned:
  "pinned (P s ! k) \<Longrightarrow> P (projectLocal c s) ! k = P s ! k"
  by (cases "k = i c"; cases "k = j c"; simp add: projectLocal_def Let_def)

lemma projectLocal_fields:
  "pinned (P (projectLocal c s) ! k) = pinned (P s ! k) \<and>
   w (P (projectLocal c s) ! k) = w (P s ! k) \<and>
   old_p (P (projectLocal c s) ! k) = old_p (P s ! k) \<and>
   v (P (projectLocal c s) ! k) = v (P s ! k)"
  by (simp add: projectLocal_def Let_def nth_update_p_fields)

lemma vadd_zero: "vadd a (Vec3 0 0 0) = a"
  by (cases a) simp

lemma vsub_zero: "vsub a (Vec3 0 0 0) = a"
  by (cases a) simp

text \<open>
  Claim C4.  Where neither early return of \<^verbatim>\<open>projectLocal\<close> applies, an endpoint
  that is not pinned moves by \<open>dp\<close> times its inverse mass over the sum of the two
  inverse masses (added at the first endpoint, subtracted at the second), and a
  pinned endpoint stays; when pinned endpoints have inverse mass 0 this is the
  same formula at both endpoints.  Between a free particle of inverse mass 1 and
  a pinned one of inverse mass 0 the pinned particle is unchanged and the free
  one takes the whole of \<open>dp\<close>.
\<close>

theorem projectLocal_mass_weighted:
  assumes "i c < length (P s)" and "j c < length (P s)"
  shows "(eps \<le> vlength (vsub (p (P s ! i c)) (p (P s ! j c))) \<and>
          eps \<le> w (P s ! i c) + w (P s ! j c) \<longrightarrow>
            p (P (projectLocal c s) ! i c) =
              (if pinned (P s ! i c) then p (P s ! i c)
               else vadd (p (P s ! i c))
                      (vscale (localDp c s) (w (P s ! i c) / (w (P s ! i c) + w (P s ! j c))))) \<and>
            p (P (projectLocal c s) ! j c) =
              (if pinned (P s ! j c) then p (P s ! j c)
               else vsub (p (P s ! j c))
                      (vscale (localDp c s) (w (P s ! j c) / (w (P s ! i c) + w (P s ! j c)))))) \<and>
         (eps \<le> vlength (vsub (p (P s ! i c)) (p (P s ! j c))) \<and>
          eps \<le> w (P s ! i c) + w (P s ! j c) \<and>
          (pinned (P s ! i c) \<longrightarrow> w (P s ! i c) = 0) \<and>
          (pinned (P s ! j c) \<longrightarrow> w (P s ! j c) = 0) \<longrightarrow>
            p (P (projectLocal c s) ! i c) =
              vadd (p (P s ! i c))
                (vscale (localDp c s) (w (P s ! i c) / (w (P s ! i c) + w (P s ! j c)))) \<and>
            p (P (projectLocal c s) ! j c) =
              vsub (p (P s ! j c))
                (vscale (localDp c s) (w (P s ! j c) / (w (P s ! i c) + w (P s ! j c))))) \<and>
         (w (P s ! i c) = 1 \<and> \<not> pinned (P s ! i c) \<and> w (P s ! j c) = 0 \<and> pinned (P s ! j c) \<longrightarrow>
            P (projectLocal c s) ! j c = P s ! j c \<and>
            (eps \<le> vlength (vsub (p (P s ! i c)) (p (P s ! j c))) \<longrightarrow>
               p (P (projectLocal c s) ! i c) = vadd (p (P s ! i c)) (localDp c s))) \<and>
         (w (P s ! j c) = 1 \<and> \<not> pinned (P s ! j c) \<and> w (P s ! i c) = 0 \<and> pinned (P s ! i c) \<longrightarrow>
            P (projectLocal c s) ! i c = P s ! i c \<and>
            (eps \<le> vlength (vsub (p (P s ! i c)) (p (P s ! j c))) \<longrightarrow>
               p (P (projectLocal c s) ! j c) = vsub (p (P s ! j c)) (localDp c s)))"
proof -
  let ?d = "vlength (vsub (p (P s ! i c)) (p (P s ! j c)))"
  let ?ws = "w (P s ! i c) + w (P s ! j c)"
  have general: "eps \<le> ?d \<and> eps \<le> ?ws \<longrightarrow>
            p (P (projectLocal c s) ! i c) =
              (if pinned (P s ! i c) then p (P s ! i c)
               else vadd (p (P s ! i c)) (vscale (localDp c s) (w (P s ! i c) / ?ws))) \<and>
            p (P (projectLocal c s) ! j c) =
              (if pinned (P s ! j c) then p (P s ! j c)
               else vsub (p (P s ! j c)) (vscale (localDp c s) (w (P s ! j c) / ?ws)))"
    using projectLocal_i [OF assms(1)] projectLocal_j [OF assms(2)] by blast
  have uniform: "eps \<le> ?d \<and> eps \<le> ?ws \<and>
          (pinned (P s ! i c) \<longrightarrow> w (P s ! i c) = 0) \<and>
          (pinned (P s ! j c) \<longrightarrow> w (P s ! j c) = 0) \<longrightarrow>
            p (P (projectLocal c s) ! i c) =
              vadd (p (P s ! i c)) (vscale (localDp c s) (w (P s ! i c) / ?ws)) \<and>
            p (P (projectLocal c s) ! j c) =
              vsub (p (P s ! j c)) (vscale (localDp c s) (w (P s ! j c) / ?ws))"
  proof (intro impI conjI)
    assume h: "eps \<le> ?d \<and> eps \<le> ?ws \<and>
          (pinned (P s ! i c) \<longrightarrow> w (P s ! i c) = 0) \<and>
          (pinned (P s ! j c) \<longrightarrow> w (P s ! j c) = 0)"
    show "p (P (projectLocal c s) ! i c) =
              vadd (p (P s ! i c)) (vscale (localDp c s) (w (P s ! i c) / ?ws))"
    proof (cases "pinned (P s ! i c)")
      case True
      with h general show ?thesis by (simp add: vscale_zero vadd_zero)
    next
      case False
      with h general show ?thesis by simp
    qed
    show "p (P (projectLocal c s) ! j c) =
              vsub (p (P s ! j c)) (vscale (localDp c s) (w (P s ! j c) / ?ws))"
    proof (cases "pinned (P s ! j c)")
      case True
      with h general show ?thesis by (simp add: vscale_zero vsub_zero)
    next
      case False
      with h general show ?thesis by simp
    qed
  qed
  have free_i: "w (P s ! i c) = 1 \<and> \<not> pinned (P s ! i c) \<and> w (P s ! j c) = 0 \<and> pinned (P s ! j c) \<longrightarrow>
            P (projectLocal c s) ! j c = P s ! j c \<and>
            (eps \<le> ?d \<longrightarrow> p (P (projectLocal c s) ! i c) = vadd (p (P s ! i c)) (localDp c s))"
  proof (intro impI conjI)
    assume "w (P s ! i c) = 1 \<and> \<not> pinned (P s ! i c) \<and> w (P s ! j c) = 0 \<and> pinned (P s ! j c)"
    then show "P (projectLocal c s) ! j c = P s ! j c"
      by (simp add: projectLocal_pinned)
  next
    assume h: "w (P s ! i c) = 1 \<and> \<not> pinned (P s ! i c) \<and> w (P s ! j c) = 0 \<and> pinned (P s ! j c)"
      and d: "eps \<le> ?d"
    have "eps \<le> ?ws" using h by (simp add: eps_def)
    from projectLocal_i [OF assms(1) d this] h
    show "p (P (projectLocal c s) ! i c) = vadd (p (P s ! i c)) (localDp c s)"
      by (simp add: vscale_one)
  qed
  have free_j: "w (P s ! j c) = 1 \<and> \<not> pinned (P s ! j c) \<and> w (P s ! i c) = 0 \<and> pinned (P s ! i c) \<longrightarrow>
            P (projectLocal c s) ! i c = P s ! i c \<and>
            (eps \<le> ?d \<longrightarrow> p (P (projectLocal c s) ! j c) = vsub (p (P s ! j c)) (localDp c s))"
  proof (intro impI conjI)
    assume "w (P s ! j c) = 1 \<and> \<not> pinned (P s ! j c) \<and> w (P s ! i c) = 0 \<and> pinned (P s ! i c)"
    then show "P (projectLocal c s) ! i c = P s ! i c"
      by (simp add: projectLocal_pinned)
  next
    assume h: "w (P s ! j c) = 1 \<and> \<not> pinned (P s ! j c) \<and> w (P s ! i c) = 0 \<and> pinned (P s ! i c)"
      and d: "eps \<le> ?d"
    have "eps \<le> ?ws" using h by (simp add: eps_def)
    from projectLocal_j [OF assms(2) d this] h
    show "p (P (projectLocal c s) ! j c) = vsub (p (P s ! j c)) (localDp c s)"
      by (simp add: vscale_one)
  qed
  from general uniform free_i free_j show ?thesis by (intro conjI)
qed

lemma exScene_localDp: "localDp exLocal exScene = Vec3 (- 2) 0 0"
  using exScene_local_dist
  by (simp add: localDp_def Let_def) (simp add: exScene_def exLocal_def exFree_def exPinned_def)

text \<open>
  In the first example scene \<open>dp = (-2, 0, 0)\<close>: the free particle moves from
  \<open>(3, 0, 0)\<close> to \<open>(1, 0, 0)\<close> and the pinned one stays.
\<close>

theorem projectLocal_mass_weighted_witness:
  "i exLocal < length (P exScene) \<and> j exLocal < length (P exScene) \<and>
   w (P exScene ! i exLocal) = 1 \<and> \<not> pinned (P exScene ! i exLocal) \<and>
   w (P exScene ! j exLocal) = 0 \<and> pinned (P exScene ! j exLocal) \<and>
   eps \<le> vlength (vsub (p (P exScene ! i exLocal)) (p (P exScene ! j exLocal))) \<and>
   P (projectLocal exLocal exScene) ! j exLocal = P exScene ! j exLocal \<and>
   p (P (projectLocal exLocal exScene) ! i exLocal) = Vec3 1 0 0"
proof -
  have a: "i exLocal < length (P exScene)" "j exLocal < length (P exScene)"
    by (simp_all add: exScene_def exLocal_def)
  have b: "w (P exScene ! i exLocal) = 1 \<and> \<not> pinned (P exScene ! i exLocal) \<and>
           w (P exScene ! j exLocal) = 0 \<and> pinned (P exScene ! j exLocal)"
    by (simp add: exScene_def exLocal_def exFree_def exPinned_def)
  have d: "eps \<le> vlength (vsub (p (P exScene ! i exLocal)) (p (P exScene ! j exLocal)))"
    by (simp add: exScene_local_dist eps_def)
  have e: "vadd (p (P exScene ! i exLocal)) (localDp exLocal exScene) = Vec3 1 0 0"
    by (simp add: exScene_localDp) (simp add: exScene_def exLocal_def exFree_def)
  from projectLocal_mass_weighted [OF a] b d
  have "P (projectLocal exLocal exScene) ! j exLocal = P exScene ! j exLocal \<and>
        p (P (projectLocal exLocal exScene) ! i exLocal) =
          vadd (p (P exScene ! i exLocal)) (localDp exLocal exScene)"
    by blast
  with a b d e show ?thesis by simp
qed

section \<open>What every step of a tick keeps\<close>

lemma sameStatic_refl: "sameStatic s s"
  by (simp add: sameStatic_def)

lemma sameStatic_trans: "sameStatic s t \<Longrightarrow> sameStatic t u \<Longrightarrow> sameStatic s u"
  by (simp add: sameStatic_def)

lemma pinsKept_refl: "pinsKept s s"
  by (simp add: pinsKept_def)

lemma pinsKept_trans:
  "sameStatic s t \<Longrightarrow> pinsKept s t \<Longrightarrow> pinsKept t u \<Longrightarrow> pinsKept s u"
  by (simp add: sameStatic_def pinsKept_def)

lemma lraInv_sameStatic: "lraInv s \<Longrightarrow> sameStatic s t \<Longrightarrow> lraInv t"
  by (simp add: lraInv_def sameStatic_def)

lemma integrate_static: "pinned (integrate q) = pinned q \<and> w (integrate q) = w q"
  by (simp add: integrate_def Let_def)

lemma updateVelocity_static:
  "pinned (updateVelocity q) = pinned q \<and> w (updateVelocity q) = w q \<and> p (updateVelocity q) = p q"
  by (simp add: updateVelocity_def Let_def)

lemma sameStatic_integrate: "sameStatic s (s\<lparr>P := map integrate (P s)\<rparr>)"
  by (simp add: sameStatic_def integrate_static)

lemma pinsKept_integrate: "pinsKept s (s\<lparr>P := map integrate (P s)\<rparr>)"
  by (simp add: pinsKept_def integrate_def)

lemma sameStatic_updateVelocity: "sameStatic s (s\<lparr>P := map updateVelocity (P s)\<rparr>)"
  by (simp add: sameStatic_def updateVelocity_static)

lemma pinsKept_updateVelocity: "pinsKept s (s\<lparr>P := map updateVelocity (P s)\<rparr>)"
  by (simp add: pinsKept_def updateVelocity_def)

lemma sameStatic_projectLocal: "sameStatic s (projectLocal c s)"
  by (simp add: sameStatic_def projectLocal_rest projectLocal_fields)

lemma pinsKept_projectLocal: "pinsKept s (projectLocal c s)"
  by (simp add: pinsKept_def projectLocal_pinned)

lemma sameStatic_projectLRA: "sameStatic s (projectLRA sl c s)"
  by (simp add: sameStatic_def projectLRA_rest projectLRA_fields)

lemma pinsKept_projectLRA:
  "\<not> pinned (P s ! particleIdx c) \<Longrightarrow> pinsKept s (projectLRA sl c s)"
  unfolding pinsKept_def
proof (intro allI impI)
  fix k
  assume np: "\<not> pinned (P s ! particleIdx c)" and "pinned (P s ! k)"
  then have "k \<noteq> particleIdx c" by blast
  then show "P (projectLRA sl c s) ! k = P s ! k" by (rule projectLRA_other)
qed

lemma sameStatic_fold_local: "sameStatic s (fold projectLocal cs s)"
proof (induction cs arbitrary: s)
  case Nil
  show ?case by (simp add: sameStatic_refl)
next
  case (Cons c cs)
  have "sameStatic s (projectLocal c s)" by (rule sameStatic_projectLocal)
  moreover have "sameStatic (projectLocal c s) (fold projectLocal cs (projectLocal c s))"
    by (rule Cons.IH)
  ultimately show ?case by (simp add: sameStatic_trans)
qed

lemma pinsKept_fold_local: "pinsKept s (fold projectLocal cs s)"
proof (induction cs arbitrary: s)
  case Nil
  show ?case by (simp add: pinsKept_refl)
next
  case (Cons c cs)
  have "pinsKept s (fold projectLocal cs (projectLocal c s))"
    using sameStatic_projectLocal pinsKept_projectLocal Cons.IH by (rule pinsKept_trans)
  then show ?case by simp
qed

lemma sameStatic_fold_lra: "sameStatic s (fold (projectLRA sl) cs s)"
proof (induction cs arbitrary: s)
  case Nil
  show ?case by (simp add: sameStatic_refl)
next
  case (Cons c cs)
  have "sameStatic s (projectLRA sl c s)" by (rule sameStatic_projectLRA)
  moreover have "sameStatic (projectLRA sl c s) (fold (projectLRA sl) cs (projectLRA sl c s))"
    by (rule Cons.IH)
  ultimately show ?case by (simp add: sameStatic_trans)
qed

lemma pinsKept_fold_lra:
  "\<forall>c\<in>set cs. particleIdx c < length (P s) \<and> \<not> pinned (P s ! particleIdx c) \<Longrightarrow>
   pinsKept s (fold (projectLRA sl) cs s)"
proof (induction cs arbitrary: s)
  case Nil
  show ?case by (simp add: pinsKept_refl)
next
  case (Cons c cs)
  let ?t = "projectLRA sl c s"
  have st: "sameStatic s ?t" by (rule sameStatic_projectLRA)
  have "\<forall>c\<in>set cs. particleIdx c < length (P ?t) \<and> \<not> pinned (P ?t ! particleIdx c)"
    using Cons.prems st by (simp add: sameStatic_def)
  then have "pinsKept ?t (fold (projectLRA sl) cs ?t)" by (rule Cons.IH)
  moreover have "pinsKept s ?t" using Cons.prems by (simp add: pinsKept_projectLRA)
  ultimately have "pinsKept s (fold (projectLRA sl) cs ?t)"
    using st pinsKept_trans by blast
  then show ?case by simp
qed

lemma sameStatic_pass: "sameStatic s (projectPass u sl s)"
  using sameStatic_fold_local [of s "localConstraints s"]
    sameStatic_fold_lra [of "fold projectLocal (localConstraints s) s" sl]
  by (auto simp add: projectPass_def Let_def intro: sameStatic_trans)

lemma pinsKept_pass:
  assumes "lraInv s"
  shows "pinsKept s (projectPass u sl s)"
proof -
  let ?t = "fold projectLocal (localConstraints s) s"
  have st: "sameStatic s ?t" by (rule sameStatic_fold_local)
  have pk: "pinsKept s ?t" by (rule pinsKept_fold_local)
  have "lraInv ?t" using assms st by (rule lraInv_sameStatic)
  then have "\<forall>c\<in>set (lraConstraints ?t). particleIdx c < length (P ?t) \<and> \<not> pinned (P ?t ! particleIdx c)"
    by (simp add: lraInv_def)
  then have "pinsKept ?t (fold (projectLRA sl) (lraConstraints ?t) ?t)"
    by (rule pinsKept_fold_lra)
  with st pk have "pinsKept s (fold (projectLRA sl) (lraConstraints ?t) ?t)"
    using pinsKept_trans by blast
  with pk show ?thesis by (simp add: projectPass_def Let_def)
qed

lemma sameStatic_funpow: "sameStatic s ((projectPass u sl ^^ n) s)"
proof (induction n)
  case 0
  show ?case by (simp add: sameStatic_refl)
next
  case (Suc n)
  have "sameStatic ((projectPass u sl ^^ n) s) (projectPass u sl ((projectPass u sl ^^ n) s))"
    by (rule sameStatic_pass)
  with Suc show ?case by (simp add: sameStatic_trans)
qed

lemma pinsKept_funpow:
  assumes "lraInv s"
  shows "pinsKept s ((projectPass u sl ^^ n) s)"
proof (induction n)
  case 0
  show ?case by (simp add: pinsKept_refl)
next
  case (Suc n)
  let ?t = "(projectPass u sl ^^ n) s"
  have st: "sameStatic s ?t" by (rule sameStatic_funpow)
  then have "lraInv ?t" using assms lraInv_sameStatic by blast
  then have "pinsKept ?t (projectPass u sl ?t)" by (rule pinsKept_pass)
  with st Suc have "pinsKept s (projectPass u sl ?t)"
    using pinsKept_trans by blast
  then show ?case by simp
qed

lemma sameStatic_simulate: "sameStatic s (simulate n u sl s)"
proof -
  let ?s1 = "s\<lparr>P := map integrate (P s)\<rparr>"
  let ?s2 = "(projectPass u sl ^^ nat n) ?s1"
  have "sameStatic s ?s1" by (rule sameStatic_integrate)
  moreover have "sameStatic ?s1 ?s2" by (rule sameStatic_funpow)
  moreover have "sameStatic ?s2 (?s2\<lparr>P := map updateVelocity (P ?s2)\<rparr>)"
    by (rule sameStatic_updateVelocity)
  ultimately have "sameStatic s (?s2\<lparr>P := map updateVelocity (P ?s2)\<rparr>)"
    using sameStatic_trans by blast
  then show ?thesis by (simp add: simulate_def Let_def)
qed

lemma pinsKept_simulate:
  assumes "lraInv s"
  shows "pinsKept s (simulate n u sl s)"
proof -
  let ?s1 = "s\<lparr>P := map integrate (P s)\<rparr>"
  let ?s2 = "(projectPass u sl ^^ nat n) ?s1"
  let ?s3 = "?s2\<lparr>P := map updateVelocity (P ?s2)\<rparr>"
  have a: "sameStatic s ?s1" by (rule sameStatic_integrate)
  have b: "sameStatic ?s1 ?s2" by (rule sameStatic_funpow)
  have "lraInv ?s1" using assms a by (rule lraInv_sameStatic)
  then have "pinsKept ?s1 ?s2" by (rule pinsKept_funpow)
  with a pinsKept_integrate have c: "pinsKept s ?s2"
    using pinsKept_trans by blast
  have "sameStatic s ?s2" using a b by (rule sameStatic_trans)
  with c pinsKept_updateVelocity have "pinsKept s ?s3"
    using pinsKept_trans by blast
  then show ?thesis by (simp add: simulate_def Let_def)
qed

lemma sameStatic_ticks: "sameStatic s (ticks ts s)"
proof (induction ts arbitrary: s)
  case Nil
  show ?case by (simp add: sameStatic_refl)
next
  case (Cons t ts)
  obtain n u sl where t: "t = (n, u, sl)" by (cases t)
  have "sameStatic s (simulate n u sl s)" by (rule sameStatic_simulate)
  moreover have "sameStatic (simulate n u sl s) (ticks ts (simulate n u sl s))" by (rule Cons.IH)
  ultimately show ?case using t by (simp add: sameStatic_trans)
qed

lemma pinsKept_ticks:
  "lraInv s \<Longrightarrow> pinsKept s (ticks ts s)"
proof (induction ts arbitrary: s)
  case Nil
  show ?case by (simp add: pinsKept_refl)
next
  case (Cons t ts)
  obtain n u sl where t: "t = (n, u, sl)" by (cases t)
  let ?s = "simulate n u sl s"
  have st: "sameStatic s ?s" by (rule sameStatic_simulate)
  then have "lraInv ?s" using Cons.prems lraInv_sameStatic by blast
  then have "pinsKept ?s (ticks ts ?s)" by (rule Cons.IH)
  moreover have "pinsKept s ?s" using Cons.prems by (rule pinsKept_simulate)
  ultimately have "pinsKept s (ticks ts ?s)" using st pinsKept_trans by blast
  then show ?case using t by simp
qed

section \<open>The structure of a tick\<close>

lemma integrate_explicit:
  "integrate q = (if pinned q then q
                  else q\<lparr>v := vadd (v q) (vscale g dt),
                         old_p := p q,
                         p := vadd (p q) (vscale (vadd (v q) (vscale g dt)) dt)\<rparr>)"
  by (simp add: integrate_def Let_def)

lemma updateVelocity_explicit:
  "updateVelocity q = (if pinned q then q
                       else q\<lparr>v := vscale (vdiv (vsub (p q) (old_p q)) dt) drag\<rparr>)"
  by (simp add: updateVelocity_def Let_def)

lemma stagePredict_eq: "stagePredict s = s\<lparr>P := map integrate (P s)\<rparr>"
proof -
  have "integrate = (\<lambda>q. if pinned q then q
                      else q\<lparr>v := vadd (v q) (vscale g dt),
                             old_p := p q,
                             p := vadd (p q) (vscale (vadd (v q) (vscale g dt)) dt)\<rparr>)"
    by (rule ext) (rule integrate_explicit)
  then show ?thesis by (simp only: stagePredict_def)
qed

lemma stageReconcile_eq: "stageReconcile s = s\<lparr>P := map updateVelocity (P s)\<rparr>"
proof -
  have "updateVelocity = (\<lambda>q. if pinned q then q
                       else q\<lparr>v := vscale (vdiv (vsub (p q) (old_p q)) dt) drag\<rparr>)"
    by (rule ext) (rule updateVelocity_explicit)
  then show ?thesis by (simp only: stageReconcile_def)
qed

lemma stageProject_eq: "stageProject u sl s = projectPass u sl s"
proof -
  have "lraConstraints (fold projectLocal (localConstraints s) s) = lraConstraints s"
    using sameStatic_fold_local [of s "localConstraints s"] by (simp add: sameStatic_def)
  then show ?thesis
    by (simp add: stageProject_def projectPass_def Let_def foldl_conv_fold)
qed

text \<open>
  Claim C3.  A tick is the predict stage, then exactly \<open>nat n\<close> projection
  passes (local constraints in order, then the LRA constraints in order when LRA
  is enabled), then the reconcile stage, whose damping factor is below 1; the
  constraint vectors, the anchor list, the number of particles, the pin flags and
  the inverse masses are as before the tick.
\<close>

theorem simulate_three_stages:
  "simulate n lraEnabled slack s =
     stageReconcile ((stageProject lraEnabled slack ^^ nat n) (stagePredict s)) \<and>
   drag < 1 \<and>
   sameStatic s (simulate n lraEnabled slack s)"
proof -
  have "stageProject lraEnabled slack = projectPass lraEnabled slack"
    by (rule ext) (rule stageProject_eq)
  then have "simulate n lraEnabled slack s =
     stageReconcile ((stageProject lraEnabled slack ^^ nat n) (stagePredict s))"
    by (simp add: simulate_def Let_def stagePredict_eq stageReconcile_eq)
  moreover have "drag < 1" by (simp add: drag_def)
  ultimately show ?thesis using sameStatic_simulate by blast
qed

theorem simulate_three_stages_witness:
  "simulate 5 True 1 exScene =
     stageReconcile ((stageProject True 1 ^^ nat 5) (stagePredict exScene)) \<and>
   (1::nat) < length (P exScene) \<and>
   pinned (P (simulate 5 True 1 exScene) ! 1) = pinned (P exScene ! 1) \<and>
   w (P (simulate 5 True 1 exScene) ! 1) = w (P exScene ! 1) \<and>
   lraConstraints (simulate 5 True 1 exScene) = lraConstraints exScene"
proof -
  have a: "simulate 5 True 1 exScene =
     stageReconcile ((stageProject True 1 ^^ nat 5) (stagePredict exScene))"
    and b: "sameStatic exScene (simulate 5 True 1 exScene)"
    using simulate_three_stages [of 5 True 1 exScene] by blast+
  have c: "(1::nat) < length (P exScene)" by (simp add: exScene_def)
  from b c have "pinned (P (simulate 5 True 1 exScene) ! 1) = pinned (P exScene ! 1) \<and>
   w (P (simulate 5 True 1 exScene) ! 1) = w (P exScene ! 1) \<and>
   lraConstraints (simulate 5 True 1 exScene) = lraConstraints exScene"
    unfolding sameStatic_def by blast
  with a c show ?thesis by blast
qed

section \<open>The LRA pass clamps every constraint\<close>

text \<open>
  The lemmas of this section are about the exact arithmetic of \<open>projectLRA\<close>:
  there a corrected particle is on the sphere of radius \<open>limit\<close>, and a pass over
  the LRA constraints leaves every constraint within \<open>limit + eps\<close>.  They give no
  bound for binary32 arithmetic, where each correction carries the rounding of
  its quotient, its product and its sum.
\<close>

lemma projectLRA_clamps_one:
  assumes "particleIdx c < length (P s)" and "0 \<le> maxDist c * sl"
  shows "lraDist (projectLRA sl c s) c \<le> maxDist c * sl + eps"
proof -
  have e: "0 < eps" by (simp add: eps_def)
  consider (within) "lraDist s c \<le> maxDist c * sl"
    | (tiny) "maxDist c * sl < lraDist s c" "lraDist s c < eps"
    | (far) "maxDist c * sl < lraDist s c" "eps \<le> lraDist s c"
    by linarith
  then show ?thesis
  proof cases
    case within
    then have "projectLRA sl c s = s" by (simp add: projectLRA_noop)
    with within e show ?thesis by simp
  next
    case tiny
    then have "projectLRA sl c s = s" by (simp add: projectLRA_noop)
    with tiny assms(2) show ?thesis by simp
  next
    case far
    then have "lraDist (projectLRA sl c s) c = maxDist c * sl"
      using assms by (simp add: projectLRA_on_sphere)
    with e show ?thesis by simp
  qed
qed

lemma fold_projectLRA_other:
  "k \<notin> particleIdx ` set cs \<Longrightarrow> P (fold (projectLRA sl) cs s) ! k = P s ! k"
proof (induction cs arbitrary: s)
  case Nil
  show ?case by simp
next
  case (Cons c cs)
  then have "k \<noteq> particleIdx c" and "k \<notin> particleIdx ` set cs" by auto
  then show ?case using Cons.IH [of "projectLRA sl c s"] by (simp add: projectLRA_other)
qed

lemma fold_projectLRA_length: "length (P (fold (projectLRA sl) cs s)) = length (P s)"
  using sameStatic_fold_lra [of s sl cs] by (simp add: sameStatic_def)

lemma fold_projectLRA_clamps:
  assumes "distinct (map particleIdx cs)"
    and "\<forall>c\<in>set cs. particleIdx c < length (P s) \<and> 0 \<le> maxDist c * sl"
    and "\<forall>c\<in>set cs. \<forall>c'\<in>set cs. attachmentIdx c \<noteq> particleIdx c'"
  shows "\<forall>c\<in>set cs. lraDist (fold (projectLRA sl) cs s) c \<le> maxDist c * sl + eps"
  using assms
proof (induction cs arbitrary: s)
  case Nil
  show ?case by simp
next
  case (Cons c cs)
  let ?t = "projectLRA sl c s"
  have len: "length (P ?t) = length (P s)" by (simp add: projectLRA_rest)
  have rest: "\<forall>c'\<in>set cs. lraDist (fold (projectLRA sl) cs ?t) c' \<le> maxDist c' * sl + eps"
  proof (rule Cons.IH)
    show "distinct (map particleIdx cs)" using Cons.prems(1) by simp
    show "\<forall>c\<in>set cs. particleIdx c < length (P ?t) \<and> 0 \<le> maxDist c * sl"
      using Cons.prems(2) len by simp
    show "\<forall>c\<in>set cs. \<forall>c'\<in>set cs. attachmentIdx c \<noteq> particleIdx c'"
      using Cons.prems(3) by simp
  qed
  have a: "particleIdx c \<notin> particleIdx ` set cs" using Cons.prems(1) by simp
  have b: "attachmentIdx c \<notin> particleIdx ` set cs" using Cons.prems(3) by auto
  have "lraDist (fold (projectLRA sl) cs ?t) c = lraDist ?t c"
    by (simp add: lraDist_def fold_projectLRA_other [OF a] fold_projectLRA_other [OF b])
  moreover have "lraDist ?t c \<le> maxDist c * sl + eps"
    using Cons.prems(2) by (simp add: projectLRA_clamps_one)
  ultimately have "lraDist (fold (projectLRA sl) cs ?t) c \<le> maxDist c * sl + eps" by simp
  with rest show ?case by simp
qed

lemma lraInv_clamp_pass:
  assumes "lraInv s" and "0 \<le> sl"
  shows "\<forall>c\<in>set (lraConstraints s). lraDist (projectPass True sl s) c \<le> maxDist c * sl + eps"
proof -
  let ?t = "fold projectLocal (localConstraints s) s"
  have st: "sameStatic s ?t" by (rule sameStatic_fold_local)
  then have inv: "lraInv ?t" using assms(1) lraInv_sameStatic by blast
  have eq: "lraConstraints ?t = lraConstraints s" using st by (simp add: sameStatic_def)
  have "\<forall>c\<in>set (lraConstraints ?t).
          lraDist (fold (projectLRA sl) (lraConstraints ?t) ?t) c \<le> maxDist c * sl + eps"
  proof (rule fold_projectLRA_clamps)
    show "distinct (map particleIdx (lraConstraints ?t))" using inv by (simp add: lraInv_def)
    show "\<forall>c\<in>set (lraConstraints ?t). particleIdx c < length (P ?t) \<and> 0 \<le> maxDist c * sl"
      using inv assms(2) by (simp add: lraInv_def)
    show "\<forall>c\<in>set (lraConstraints ?t). \<forall>c'\<in>set (lraConstraints ?t). attachmentIdx c \<noteq> particleIdx c'"
      using inv unfolding lraInv_def by metis
  qed
  then show ?thesis by (simp add: projectPass_def Let_def eq)
qed

lemma lraDist_updateVelocity:
  assumes "particleIdx c < length (P s)" and "attachmentIdx c < length (P s)"
  shows "lraDist (s\<lparr>P := map updateVelocity (P s)\<rparr>) c = lraDist s c"
  using assms by (simp add: lraDist_def updateVelocity_static)

lemma lraInv_clamp_simulate:
  assumes "lraInv s" and "0 < n" and "0 \<le> sl"
  shows "\<forall>c\<in>set (lraConstraints s). lraDist (simulate n True sl s) c \<le> maxDist c * sl + eps"
proof -
  obtain m where m: "nat n = Suc m" using assms(2) by (cases "nat n") auto
  let ?s1 = "s\<lparr>P := map integrate (P s)\<rparr>"
  let ?t = "(projectPass True sl ^^ m) ?s1"
  let ?s2 = "projectPass True sl ?t"
  have st: "sameStatic s ?t"
    using sameStatic_integrate sameStatic_funpow sameStatic_trans by blast
  then have inv: "lraInv ?t" using assms(1) lraInv_sameStatic by blast
  have eq: "lraConstraints ?t = lraConstraints s" using st by (simp add: sameStatic_def)
  have cl: "\<forall>c\<in>set (lraConstraints s). lraDist ?s2 c \<le> maxDist c * sl + eps"
    using lraInv_clamp_pass [OF inv assms(3)] eq by simp
  have st2: "sameStatic ?t ?s2" by (rule sameStatic_pass)
  then have inv2: "lraInv ?s2" using inv lraInv_sameStatic by blast
  have eq2: "lraConstraints ?s2 = lraConstraints s" using st2 eq by (simp add: sameStatic_def)
  have sim: "simulate n True sl s = ?s2\<lparr>P := map updateVelocity (P ?s2)\<rparr>"
    by (simp add: simulate_def Let_def m)
  show ?thesis
  proof
    fix c
    assume c: "c \<in> set (lraConstraints s)"
    then have "particleIdx c < length (P ?s2)" "attachmentIdx c < length (P ?s2)"
      using inv2 eq2 by (simp_all add: lraInv_def)
    then have "lraDist (simulate n True sl s) c = lraDist ?s2 c"
      by (simp only: sim lraDist_updateVelocity)
    with cl c show "lraDist (simulate n True sl s) c \<le> maxDist c * sl + eps" by simp
  qed
qed

section \<open>The scene that the builder produces\<close>

subsection \<open>Step 1: particles and anchors\<close>

lemma particle_all_fields:
  "(q::Particle)\<lparr>p := a, old_p := b, v := c, w := d, pinned := e\<rparr> =
     \<lparr>p = a, old_p = b, v = c, w = d, pinned = e\<rparr>"
  by (cases q) simp

lemma gridParticle_at:
  assumes "x < cw"
  shows "gridParticle cw ch sp (y * cw + x) =
         \<lparr>p = Vec3 ((real x - real (cw - 1) * (1 / 2)) * sp) (real (ch - 1 - y) * sp) 0,
          old_p = Vec3 ((real x - real (cw - 1) * (1 / 2)) * sp) (real (ch - 1 - y) * sp) 0,
          v = Vec3 0 0 0,
          w = (if y = 0 \<and> (x = 0 \<or> x = cw - 1) then 0 else 1),
          pinned = (y = 0 \<and> (x = 0 \<or> x = cw - 1))\<rparr>"
proof -
  have "(y * cw + x) mod cw = x" "(y * cw + x) div cw = y"
    using assms by simp_all
  then show ?thesis
    by (simp only: gridParticle_def Let_def)
qed

lemma initParticle_eq:
  assumes "x < cw"
  shows "initParticle cw ch sp y x s =
         s\<lparr>P := (P s)[y * cw + x := gridParticle cw ch sp (y * cw + x)],
           attachmentIndices := attachmentIndices s @
              (if pinned (gridParticle cw ch sp (y * cw + x)) then [y * cw + x] else [])\<rparr>"
  unfolding gridParticle_at [OF assms]
  by (simp add: initParticle_def idx_def Let_def particle_all_fields)

lemma initRow:
  assumes "x \<le> cw"
  shows "fold (initParticle cw ch sp y) [0..<x] s =
         s\<lparr>P := map (\<lambda>k. if y * cw \<le> k \<and> k < y * cw + x then gridParticle cw ch sp k else P s ! k)
                    [0..<length (P s)],
           attachmentIndices := attachmentIndices s @
              filter (\<lambda>k. pinned (gridParticle cw ch sp k)) [y * cw..<y * cw + x]\<rparr>"
  using assms
proof (induction x)
  case 0
  have "(\<lambda>k. if y * cw \<le> k \<and> k < y * cw + 0 then gridParticle cw ch sp k else P s ! k) =
        (\<lambda>k. P s ! k)"
    by (rule ext) auto
  then show ?case by (simp add: map_nth)
next
  case (Suc x)
  then have x: "x < cw" "x \<le> cw" by simp_all
  let ?r = "fold (initParticle cw ch sp y) [0..<x] s"
  have r: "?r = s\<lparr>P := map (\<lambda>k. if y * cw \<le> k \<and> k < y * cw + x then gridParticle cw ch sp k else P s ! k)
                    [0..<length (P s)],
           attachmentIndices := attachmentIndices s @
              filter (\<lambda>k. pinned (gridParticle cw ch sp k)) [y * cw..<y * cw + x]\<rparr>"
    using Suc.IH x by simp
  have upd: "(map (\<lambda>k. if y * cw \<le> k \<and> k < y * cw + x then gridParticle cw ch sp k else P s ! k)
                [0..<length (P s)])[y * cw + x := gridParticle cw ch sp (y * cw + x)] =
             map (\<lambda>k. if y * cw \<le> k \<and> k < y * cw + Suc x then gridParticle cw ch sp k else P s ! k)
                [0..<length (P s)]"
  proof (rule nth_equalityI)
    show "length ((map (\<lambda>k. if y * cw \<le> k \<and> k < y * cw + x then gridParticle cw ch sp k else P s ! k)
                [0..<length (P s)])[y * cw + x := gridParticle cw ch sp (y * cw + x)]) =
          length (map (\<lambda>k. if y * cw \<le> k \<and> k < y * cw + Suc x then gridParticle cw ch sp k else P s ! k)
                [0..<length (P s)])"
      by simp
  next
    fix n
    assume "n < length ((map (\<lambda>k. if y * cw \<le> k \<and> k < y * cw + x then gridParticle cw ch sp k else P s ! k)
                [0..<length (P s)])[y * cw + x := gridParticle cw ch sp (y * cw + x)])"
    then have n: "n < length (P s)" by simp
    show "(map (\<lambda>k. if y * cw \<le> k \<and> k < y * cw + x then gridParticle cw ch sp k else P s ! k)
                [0..<length (P s)])[y * cw + x := gridParticle cw ch sp (y * cw + x)] ! n =
          map (\<lambda>k. if y * cw \<le> k \<and> k < y * cw + Suc x then gridParticle cw ch sp k else P s ! k)
                [0..<length (P s)] ! n"
    proof (cases "n = y * cw + x")
      case True
      then show ?thesis using n by simp
    next
      case False
      then have "n < y * cw + Suc x \<longleftrightarrow> n < y * cw + x" by auto
      then show ?thesis using n False by simp
    qed
  qed
  have "fold (initParticle cw ch sp y) [0..<Suc x] s = initParticle cw ch sp y x ?r"
    by simp
  also have "\<dots> = ?r\<lparr>P := (P ?r)[y * cw + x := gridParticle cw ch sp (y * cw + x)],
           attachmentIndices := attachmentIndices ?r @
              (if pinned (gridParticle cw ch sp (y * cw + x)) then [y * cw + x] else [])\<rparr>"
    using x(1) by (rule initParticle_eq)
  also have "\<dots> = s\<lparr>P := map (\<lambda>k. if y * cw \<le> k \<and> k < y * cw + Suc x then gridParticle cw ch sp k else P s ! k)
                    [0..<length (P s)],
           attachmentIndices := attachmentIndices s @
              filter (\<lambda>k. pinned (gridParticle cw ch sp k)) [y * cw..<y * cw + Suc x]\<rparr>"
    by (simp add: r upd)
  finally show ?case .
qed

lemma initRows:
  "fold (\<lambda>y. fold (initParticle cw ch sp y) [0..<cw]) [0..<y] s =
         s\<lparr>P := map (\<lambda>k. if k < y * cw then gridParticle cw ch sp k else P s ! k)
                    [0..<length (P s)],
           attachmentIndices := attachmentIndices s @
              filter (\<lambda>k. pinned (gridParticle cw ch sp k)) [0..<y * cw]\<rparr>"
proof (induction y)
  case 0
  show ?case by (simp add: map_nth)
next
  case (Suc y)
  let ?r = "fold (\<lambda>y. fold (initParticle cw ch sp y) [0..<cw]) [0..<y] s"
  have r: "?r = s\<lparr>P := map (\<lambda>k. if k < y * cw then gridParticle cw ch sp k else P s ! k)
                    [0..<length (P s)],
           attachmentIndices := attachmentIndices s @
              filter (\<lambda>k. pinned (gridParticle cw ch sp k)) [0..<y * cw]\<rparr>"
    using Suc.IH by simp
  have pm: "map (\<lambda>k. if y * cw \<le> k \<and> k < y * cw + cw then gridParticle cw ch sp k else P ?r ! k)
                [0..<length (P ?r)] =
            map (\<lambda>k. if k < Suc y * cw then gridParticle cw ch sp k else P s ! k)
                [0..<length (P s)]"
  proof -
    have Pr: "P ?r = map (\<lambda>k. if k < y * cw then gridParticle cw ch sp k else P s ! k)
                    [0..<length (P s)]"
      using arg_cong [OF r, of P] by simp
    then have len: "length (P ?r) = length (P s)" by simp
    have pt: "\<And>n. n < length (P s) \<Longrightarrow>
            (if y * cw \<le> n \<and> n < y * cw + cw then gridParticle cw ch sp n else P ?r ! n) =
            (if n < Suc y * cw then gridParticle cw ch sp n else P s ! n)"
      by (simp only: Pr) auto
    show ?thesis
    proof (rule nth_equalityI)
      show "length (map (\<lambda>k. if y * cw \<le> k \<and> k < y * cw + cw then gridParticle cw ch sp k else P ?r ! k)
                [0..<length (P ?r)]) =
            length (map (\<lambda>k. if k < Suc y * cw then gridParticle cw ch sp k else P s ! k)
                [0..<length (P s)])"
        by (simp only: len length_map length_upt)
    next
      fix n
      assume "n < length (map (\<lambda>k. if y * cw \<le> k \<and> k < y * cw + cw then gridParticle cw ch sp k else P ?r ! k)
                [0..<length (P ?r)])"
      then have n: "n < length (P s)" by (simp add: len)
      have "map (\<lambda>k. if y * cw \<le> k \<and> k < y * cw + cw then gridParticle cw ch sp k else P ?r ! k)
                [0..<length (P ?r)] ! n =
            (if y * cw \<le> n \<and> n < y * cw + cw then gridParticle cw ch sp n else P ?r ! n)"
        using n by (simp only: len) simp
      moreover have "map (\<lambda>k. if k < Suc y * cw then gridParticle cw ch sp k else P s ! k)
                [0..<length (P s)] ! n =
             (if n < Suc y * cw then gridParticle cw ch sp n else P s ! n)"
        using n by simp
      ultimately show "map (\<lambda>k. if y * cw \<le> k \<and> k < y * cw + cw then gridParticle cw ch sp k else P ?r ! k)
                [0..<length (P ?r)] ! n =
            map (\<lambda>k. if k < Suc y * cw then gridParticle cw ch sp k else P s ! k)
                [0..<length (P s)] ! n"
        using pt [OF n] by (simp only:)
    qed
  qed
  have e: "Suc y * cw = y * cw + cw" by simp
  have up: "[0..<Suc y * cw] = [0..<y * cw] @ [y * cw..<y * cw + cw]"
    unfolding e by (rule upt_add_eq_append) simp
  have ar: "attachmentIndices ?r = attachmentIndices s @
              filter (\<lambda>k. pinned (gridParticle cw ch sp k)) [0..<y * cw]"
    using arg_cong [OF r, of attachmentIndices] by simp
  have "fold (\<lambda>y. fold (initParticle cw ch sp y) [0..<cw]) [0..<Suc y] s =
        fold (initParticle cw ch sp y) [0..<cw] ?r"
    by simp
  also have "\<dots> = ?r\<lparr>P := map (\<lambda>k. if y * cw \<le> k \<and> k < y * cw + cw then gridParticle cw ch sp k else P ?r ! k)
                    [0..<length (P ?r)],
           attachmentIndices := attachmentIndices ?r @
              filter (\<lambda>k. pinned (gridParticle cw ch sp k)) [y * cw..<y * cw + cw]\<rparr>"
    by (rule initRow) simp
  also have "\<dots> = s\<lparr>P := map (\<lambda>k. if k < Suc y * cw then gridParticle cw ch sp k else P s ! k)
                    [0..<length (P s)],
           attachmentIndices := attachmentIndices s @
              filter (\<lambda>k. pinned (gridParticle cw ch sp k)) [0..<Suc y * cw]\<rparr>"
    by (simp only: pm ar up) (simp add: r)
  finally show ?case .
qed

lemma initParticles_eq:
  assumes "length (P s) = cw * ch"
  shows "initParticles cw ch sp s =
         s\<lparr>P := map (gridParticle cw ch sp) [0..<cw * ch],
           attachmentIndices := attachmentIndices s @
              filter (\<lambda>k. pinned (gridParticle cw ch sp k)) [0..<cw * ch]\<rparr>"
proof -
  have "map (\<lambda>k. if k < ch * cw then gridParticle cw ch sp k else P s ! k) [0..<length (P s)] =
        map (gridParticle cw ch sp) [0..<cw * ch]"
    using assms by (simp add: mult.commute)
  then show ?thesis
    by (simp add: initParticles_def initRows mult.commute)
qed

lemma gridParticle_p:
  "p (gridParticle cw ch sp k) =
     Vec3 ((real (k mod cw) - real (cw - 1) * (1 / 2)) * sp) (real (ch - 1 - k div cw) * sp) 0"
  by (simp add: gridParticle_def Let_def)

lemma gridParticle_pinned:
  "pinned (gridParticle cw ch sp k) \<longleftrightarrow> k div cw = 0 \<and> (k mod cw = 0 \<or> k mod cw = cw - 1)"
  by (simp add: gridParticle_def Let_def)

subsection \<open>Step 2: local constraints\<close>

lemma addEdge_frame:
  "P (addEdge a b s) = P s"
  "lraConstraints (addEdge a b s) = lraConstraints s"
  "attachmentIndices (addEdge a b s) = attachmentIndices s"
  "length (localConstraints (addEdge a b s)) = Suc (length (localConstraints s))"
  by (simp_all add: addEdge_def Let_def)

lemma edgesAt_frame:
  "P (edgesAt cw ch y x s) = P s"
  "lraConstraints (edgesAt cw ch y x s) = lraConstraints s"
  "attachmentIndices (edgesAt cw ch y x s) = attachmentIndices s"
  "length (localConstraints (edgesAt cw ch y x s)) =
     length (localConstraints s) + (if x + 1 < cw then 1 else 0) + (if y + 1 < ch then 1 else 0)"
  by (simp_all add: edgesAt_def Let_def addEdge_frame)

lemma edgesRow_frame:
  "P (fold (edgesAt cw ch y) xs s) = P s \<and>
   lraConstraints (fold (edgesAt cw ch y) xs s) = lraConstraints s \<and>
   attachmentIndices (fold (edgesAt cw ch y) xs s) = attachmentIndices s"
  by (induction xs arbitrary: s) (simp_all add: edgesAt_frame)

lemma edgesRow_count:
  "x \<le> cw \<Longrightarrow>
   length (localConstraints (fold (edgesAt cw ch y) [0..<x] s)) =
     length (localConstraints s) + min x (cw - 1) + (if y + 1 < ch then x else 0)"
proof (induction x)
  case 0
  show ?case by simp
next
  case (Suc x)
  then have "x < cw" by simp
  then have "min (Suc x) (cw - 1) = min x (cw - 1) + (if x + 1 < cw then 1 else 0)"
    by auto
  with Suc show ?case by (simp add: edgesAt_frame)
qed

lemma buildLocal_frame:
  "P (buildLocal cw ch s) = P s \<and>
   lraConstraints (buildLocal cw ch s) = lraConstraints s \<and>
   attachmentIndices (buildLocal cw ch s) = attachmentIndices s"
proof -
  have "\<And>ys. P (fold (\<lambda>y. fold (edgesAt cw ch y) [0..<cw]) ys s) = P s \<and>
   lraConstraints (fold (\<lambda>y. fold (edgesAt cw ch y) [0..<cw]) ys s) = lraConstraints s \<and>
   attachmentIndices (fold (\<lambda>y. fold (edgesAt cw ch y) [0..<cw]) ys s) = attachmentIndices s"
  proof -
    fix ys
    show "P (fold (\<lambda>y. fold (edgesAt cw ch y) [0..<cw]) ys s) = P s \<and>
   lraConstraints (fold (\<lambda>y. fold (edgesAt cw ch y) [0..<cw]) ys s) = lraConstraints s \<and>
   attachmentIndices (fold (\<lambda>y. fold (edgesAt cw ch y) [0..<cw]) ys s) = attachmentIndices s"
      by (induction ys arbitrary: s) (simp_all add: edgesRow_frame)
  qed
  then show ?thesis by (simp add: buildLocal_def)
qed

lemma edgesRows_count:
  "y \<le> ch \<Longrightarrow>
   length (localConstraints (fold (\<lambda>y. fold (edgesAt cw ch y) [0..<cw]) [0..<y] s)) =
     length (localConstraints s) + y * (cw - 1) + min y (ch - 1) * cw"
proof (induction y)
  case 0
  show ?case by simp
next
  case (Suc y)
  then have "y < ch" by simp
  then have "min (Suc y) (ch - 1) * cw = min y (ch - 1) * cw + (if y + 1 < ch then cw else 0)"
    by (auto simp add: min_def)
  with Suc show ?case by (simp add: edgesRow_count)
qed

lemma buildLocal_count:
  "length (localConstraints (buildLocal cw ch s)) =
     length (localConstraints s) + ch * (cw - 1) + (ch - 1) * cw"
  by (simp add: buildLocal_def edgesRows_count)

lemma idx_less: "x < cw \<Longrightarrow> y < ch \<Longrightarrow> idx cw x y < cw * ch"
proof -
  assume x: "x < cw" and y: "y < ch"
  have "y * cw + x < Suc y * cw" using x by simp
  also have "\<dots> \<le> ch * cw" using y by (intro mult_le_mono1) simp
  finally show ?thesis by (simp add: idx_def mult.commute)
qed

lemma fold_invariant:
  assumes "\<And>x s. x \<in> set xs \<Longrightarrow> Q s \<Longrightarrow> Q (f x s)" and "Q s"
  shows "Q (fold f xs s)"
  using assms by (induction xs arbitrary: s) simp_all

lemma addEdge_in_range:
  "a < length (P s) \<Longrightarrow> b < length (P s) \<Longrightarrow> localInRange s \<Longrightarrow> localInRange (addEdge a b s)"
  by (simp add: localInRange_def addEdge_def Let_def)

lemma edgesAt_in_range:
  assumes "x < cw" and "y < ch" and "length (P s) = cw * ch" and "localInRange s"
  shows "length (P (edgesAt cw ch y x s)) = cw * ch \<and> localInRange (edgesAt cw ch y x s)"
proof -
  define s1 where "s1 = (if x + 1 < cw then addEdge (idx cw x y) (idx cw (x + 1) y) s else s)"
  have a: "idx cw x y < cw * ch" using assms(1,2) by (rule idx_less)
  have l1: "length (P s1) = cw * ch" using assms(3) by (simp add: s1_def addEdge_frame)
  have r1: "localInRange s1"
  proof (cases "x + 1 < cw")
    case True
    then have "idx cw (x + 1) y < cw * ch" using assms(2) by (rule idx_less)
    then have "localInRange (addEdge (idx cw x y) (idx cw (x + 1) y) s)"
      using a assms(3,4) by (simp add: addEdge_in_range)
    with True show ?thesis by (simp add: s1_def)
  next
    case False
    with assms(4) show ?thesis by (simp add: s1_def)
  qed
  have e: "edgesAt cw ch y x s =
           (if y + 1 < ch then addEdge (idx cw x y) (idx cw x (y + 1)) s1 else s1)"
    by (simp add: edgesAt_def Let_def s1_def)
  show ?thesis
  proof (cases "y + 1 < ch")
    case True
    with assms(1) have "idx cw x (y + 1) < cw * ch" by (rule idx_less)
    then have "localInRange (addEdge (idx cw x y) (idx cw x (y + 1)) s1)"
      using a l1 r1 by (simp add: addEdge_in_range)
    with True l1 show ?thesis by (simp add: e addEdge_frame)
  next
    case False
    with l1 r1 show ?thesis by (simp add: e)
  qed
qed

lemma buildLocal_in_range:
  assumes "length (P s) = cw * ch" and "localInRange s"
  shows "localInRange (buildLocal cw ch s)"
proof -
  let ?Q = "\<lambda>t. length (P t) = cw * ch \<and> localInRange t"
  have row: "\<And>y t. y \<in> set [0..<ch] \<Longrightarrow> ?Q t \<Longrightarrow> ?Q (fold (edgesAt cw ch y) [0..<cw] t)"
  proof -
    fix y t
    assume y: "y \<in> set [0..<ch]" and t: "?Q t"
    show "?Q (fold (edgesAt cw ch y) [0..<cw] t)"
    proof (rule fold_invariant [where Q = ?Q])
      show "?Q t" by (rule t)
    next
      fix x u
      assume "x \<in> set [0..<cw]" and "?Q u"
      then show "?Q (edgesAt cw ch y x u)"
        using y edgesAt_in_range [of x cw y ch u] by simp
    qed
  qed
  have "?Q (fold (\<lambda>y. fold (edgesAt cw ch y) [0..<cw]) [0..<ch] s)"
    by (rule fold_invariant [where Q = ?Q]) (use row assms in blast)+
  then show ?thesis by (simp add: buildLocal_def)
qed

subsection \<open>Step 3: the scan for the nearest anchor\<close>

lemma scanStep_pair:
  "scanStep ps k a (b0, m0) =
     (if restDist ps k a < m0 then (Some a, restDist ps k a) else (b0, m0))"
  by (simp add: scanStep_def Let_def)

lemma scan_result:
  "fold (scanStep ps k) as (b0, m0) = (b, m) \<Longrightarrow>
   (b = b0 \<and> m = m0 \<and> (\<forall>a\<in>set as. m0 \<le> restDist ps k a)) \<or>
   (\<exists>pre a post. as = pre @ a # post \<and> b = Some a \<and> m = restDist ps k a \<and>
      restDist ps k a < m0 \<and>
      (\<forall>a'\<in>set pre. restDist ps k a < restDist ps k a') \<and>
      (\<forall>a'\<in>set post. restDist ps k a \<le> restDist ps k a'))"
proof (induction as arbitrary: b0 m0)
  case Nil
  then show ?case by simp
next
  case (Cons a as)
  show ?case
  proof (cases "restDist ps k a < m0")
    case True
    then have "fold (scanStep ps k) as (Some a, restDist ps k a) = (b, m)"
      using Cons.prems by (simp add: scanStep_pair)
    from Cons.IH [OF this]
    show ?thesis
    proof
      assume "b = Some a \<and> m = restDist ps k a \<and> (\<forall>a'\<in>set as. restDist ps k a \<le> restDist ps k a')"
      then have "a # as = [] @ a # as \<and> b = Some a \<and> m = restDist ps k a \<and>
          restDist ps k a < m0 \<and>
          (\<forall>a'\<in>set []. restDist ps k a < restDist ps k a') \<and>
          (\<forall>a'\<in>set as. restDist ps k a \<le> restDist ps k a')"
        using True by simp
      then show ?thesis by blast
    next
      assume "\<exists>pre a2 post. as = pre @ a2 # post \<and> b = Some a2 \<and> m = restDist ps k a2 \<and>
          restDist ps k a2 < restDist ps k a \<and>
          (\<forall>a'\<in>set pre. restDist ps k a2 < restDist ps k a') \<and>
          (\<forall>a'\<in>set post. restDist ps k a2 \<le> restDist ps k a')"
      then obtain pre a2 post where h: "as = pre @ a2 # post" "b = Some a2" "m = restDist ps k a2"
          "restDist ps k a2 < restDist ps k a"
          "\<forall>a'\<in>set pre. restDist ps k a2 < restDist ps k a'"
          "\<forall>a'\<in>set post. restDist ps k a2 \<le> restDist ps k a'"
        by blast
      have "a # as = (a # pre) @ a2 # post \<and> b = Some a2 \<and> m = restDist ps k a2 \<and>
          restDist ps k a2 < m0 \<and>
          (\<forall>a'\<in>set (a # pre). restDist ps k a2 < restDist ps k a') \<and>
          (\<forall>a'\<in>set post. restDist ps k a2 \<le> restDist ps k a')"
        using h True by simp
      then show ?thesis by blast
    qed
  next
    case False
    then have "fold (scanStep ps k) as (b0, m0) = (b, m)"
      using Cons.prems by (simp add: scanStep_pair)
    from Cons.IH [OF this]
    show ?thesis
    proof
      assume "b = b0 \<and> m = m0 \<and> (\<forall>a'\<in>set as. m0 \<le> restDist ps k a')"
      then show ?thesis using False by simp
    next
      assume "\<exists>pre a2 post. as = pre @ a2 # post \<and> b = Some a2 \<and> m = restDist ps k a2 \<and>
          restDist ps k a2 < m0 \<and>
          (\<forall>a'\<in>set pre. restDist ps k a2 < restDist ps k a') \<and>
          (\<forall>a'\<in>set post. restDist ps k a2 \<le> restDist ps k a')"
      then obtain pre a2 post where h: "as = pre @ a2 # post" "b = Some a2" "m = restDist ps k a2"
          "restDist ps k a2 < m0"
          "\<forall>a'\<in>set pre. restDist ps k a2 < restDist ps k a'"
          "\<forall>a'\<in>set post. restDist ps k a2 \<le> restDist ps k a'"
        by blast
      have "a # as = (a # pre) @ a2 # post \<and> b = Some a2 \<and> m = restDist ps k a2 \<and>
          restDist ps k a2 < m0 \<and>
          (\<forall>a'\<in>set (a # pre). restDist ps k a2 < restDist ps k a') \<and>
          (\<forall>a'\<in>set post. restDist ps k a2 \<le> restDist ps k a')"
        using h False by simp
      then show ?thesis by blast
    qed
  qed
qed

lemma scan_from_None:
  assumes "fold (scanStep ps k) as (None, farAway) = (Some b, m)"
  shows "\<exists>pre post. as = pre @ b # post \<and> m = restDist ps k b \<and> restDist ps k b < farAway \<and>
           (\<forall>a'\<in>set pre. restDist ps k b < restDist ps k a') \<and>
           (\<forall>a'\<in>set post. restDist ps k b \<le> restDist ps k a')"
  using scan_result [OF assms] by auto

lemma scan_finds:
  assumes "a \<in> set as" and "restDist ps k a < farAway"
  shows "\<exists>b m. fold (scanStep ps k) as (None, farAway) = (Some b, m)"
proof -
  obtain b m where r: "fold (scanStep ps k) as (None, farAway) = (b, m)"
    by (cases "fold (scanStep ps k) as (None, farAway)")
  from scan_result [OF r] assms have "b \<noteq> None"
    by (auto simp add: not_le [symmetric])
  with r show ?thesis by auto
qed

lemma lraAt_eq:
  "lraAt k s = s\<lparr>lraConstraints := lraConstraints s @ lraFor (P s) (attachmentIndices s) k\<rparr>"
  by (simp add: lraAt_def lraFor_def split: prod.splits option.splits)

lemma fold_lraAt:
  "fold lraAt [0..<n] s =
     s\<lparr>lraConstraints := lraConstraints s @
          concat (map (lraFor (P s) (attachmentIndices s)) [0..<n])\<rparr>"
proof (induction n)
  case 0
  show ?case by simp
next
  case (Suc n)
  have "fold lraAt [0..<Suc n] s = lraAt n (fold lraAt [0..<n] s)"
    by simp
  also have "\<dots> = lraAt n (s\<lparr>lraConstraints := lraConstraints s @
          concat (map (lraFor (P s) (attachmentIndices s)) [0..<n])\<rparr>)"
    by (simp only: Suc)
  also have "\<dots> = s\<lparr>lraConstraints := lraConstraints s @
          concat (map (lraFor (P s) (attachmentIndices s)) [0..<Suc n])\<rparr>"
    by (simp add: lraAt_eq)
  finally show ?case .
qed

lemma buildLRA_eq:
  "buildLRA s =
     s\<lparr>lraConstraints := lraConstraints s @
          concat (map (lraFor (P s) (attachmentIndices s)) [0..<length (P s)])\<rparr>"
  by (simp add: buildLRA_def fold_lraAt)

lemma lraFor_elem:
  assumes "c \<in> set (lraFor ps as k)"
  shows "particleIdx c = k \<and> \<not> pinned (ps ! k) \<and> attachmentIdx c \<in> set as \<and>
         maxDist c = restDist ps k (attachmentIdx c)"
proof -
  from assms have np: "\<not> pinned (ps ! k)"
    by (auto simp add: lraFor_def split: if_splits)
  obtain b m where r: "fold (scanStep ps k) as (None, farAway) = (b, m)"
    by (cases "fold (scanStep ps k) as (None, farAway)")
  with assms np obtain b' where b': "b = Some b'" and c: "c = \<lparr>particleIdx = k, attachmentIdx = b', maxDist = m\<rparr>"
    by (cases b) (auto simp add: lraFor_def)
  from scan_from_None [OF r [unfolded b']] have "b' \<in> set as" "m = restDist ps k b'"
    by auto
  with np c show ?thesis by simp
qed

lemma concat_lraFor_elem:
  "c \<in> set (concat (map (lraFor ps as) [0..<n])) \<Longrightarrow>
   particleIdx c < n \<and> c \<in> set (lraFor ps as (particleIdx c))"
  using lraFor_elem by fastforce

lemma concat_lraFor_distinct:
  "distinct (map particleIdx (concat (map (lraFor ps as) [0..<n])))"
proof (induction n)
  case 0
  show ?case by simp
next
  case (Suc n)
  have new: "map particleIdx (lraFor ps as n) = [] \<or> map particleIdx (lraFor ps as n) = [n]"
    by (simp add: lraFor_def split: prod.splits option.splits)
  have old: "n \<notin> particleIdx ` set (concat (map (lraFor ps as) [0..<n]))"
    using concat_lraFor_elem [of _ ps as n] by auto
  from new show ?case
  proof
    assume "map particleIdx (lraFor ps as n) = []"
    with Suc show ?thesis by simp
  next
    assume "map particleIdx (lraFor ps as n) = [n]"
    with Suc old show ?thesis by simp
  qed
qed

lemma concat_lraFor_filter:
  "filter (\<lambda>c. particleIdx c = k) (concat (map (lraFor ps as) [0..<n])) =
     (if k < n then lraFor ps as k else [])"
proof (induction n)
  case 0
  show ?case by simp
next
  case (Suc n)
  have f: "filter (\<lambda>c. particleIdx c = k) (lraFor ps as n) = (if k = n then lraFor ps as n else [])"
    by (simp add: lraFor_def split: prod.splits option.splits)
  show ?case
  proof (cases "k < n")
    case True
    with Suc f show ?thesis by simp
  next
    case False
    with Suc f show ?thesis by (cases "k = n") simp_all
  qed
qed

subsection \<open>The built scene\<close>

lemma scene_all_fields:
  "(s::scene)\<lparr>P := a, localConstraints := b, lraConstraints := c, attachmentIndices := d\<rparr> =
     \<lparr>P = a, localConstraints = b, lraConstraints = c, attachmentIndices = d\<rparr>"
  by (cases s) simp

lemma buildScene_P: "P (buildScene cw ch sp s0) = map (gridParticle cw ch sp) [0..<cw * ch]"
  by (simp add: buildScene_def Let_def buildLRA_eq buildLocal_frame initParticles_eq)

lemma buildScene_attachmentIndices:
  "attachmentIndices (buildScene cw ch sp s0) =
     filter (\<lambda>k. pinned (gridParticle cw ch sp k)) [0..<cw * ch]"
  by (simp add: buildScene_def Let_def buildLRA_eq buildLocal_frame initParticles_eq)

lemma buildScene_lraConstraints:
  "lraConstraints (buildScene cw ch sp s0) =
     concat (map (lraFor (P (buildScene cw ch sp s0)) (attachmentIndices (buildScene cw ch sp s0)))
               [0..<cw * ch])"
  by (simp add: buildScene_def Let_def buildLRA_eq buildLocal_frame initParticles_eq)

lemma buildScene_local_count:
  "length (localConstraints (buildScene cw ch sp s0)) = ch * (cw - 1) + (ch - 1) * cw"
  by (simp add: buildScene_def Let_def buildLRA_eq buildLocal_count initParticles_eq)

lemma grid_nth:
  "k < cw * ch \<Longrightarrow> P (buildScene cw ch sp s0) ! k = gridParticle cw ch sp k"
  by (simp add: buildScene_P)

lemma buildScene_length: "length (P (buildScene cw ch sp s0)) = cw * ch"
  by (simp add: buildScene_P)

lemma attach_set:
  "a \<in> set (attachmentIndices (buildScene cw ch sp s0)) \<longleftrightarrow>
     a < cw * ch \<and> pinned (P (buildScene cw ch sp s0) ! a)"
  by (auto simp add: buildScene_attachmentIndices grid_nth)

lemma attach_sorted: "sorted_wrt (<) (attachmentIndices (buildScene cw ch sp s0))"
  by (simp add: buildScene_attachmentIndices sorted_wrt_filter)

lemma buildScene_filter_lra:
  "k < cw * ch \<Longrightarrow>
   filter (\<lambda>c. particleIdx c = k) (lraConstraints (buildScene cw ch sp s0)) =
     lraFor (P (buildScene cw ch sp s0)) (attachmentIndices (buildScene cw ch sp s0)) k"
  by (simp only: buildScene_lraConstraints [of cw ch sp s0] concat_lraFor_filter) simp

lemma buildScene_local_in_range: "localInRange (buildScene cw ch sp s0)"
proof -
  let ?s0 = "s0\<lparr>P := replicate (cw * ch) defaultParticle, localConstraints := [],
                 lraConstraints := [], attachmentIndices := []\<rparr>"
  let ?s1 = "initParticles cw ch sp ?s0"
  have "length (P ?s1) = cw * ch" by (simp add: initParticles_eq)
  moreover have "localInRange ?s1" by (simp add: initParticles_eq localInRange_def)
  ultimately have "localInRange (buildLocal cw ch ?s1)" by (rule buildLocal_in_range)
  then show ?thesis
    by (simp add: buildScene_def Let_def buildLRA_eq localInRange_def)
qed

lemma lraInv_buildScene: "lraInv (buildScene cw ch sp s0)"
proof -
  let ?b = "buildScene cw ch sp s0"
  have l: "lraConstraints ?b =
           concat (map (lraFor (P ?b) (attachmentIndices ?b)) [0..<cw * ch])"
    by (rule buildScene_lraConstraints)
  have d: "distinct (map particleIdx (lraConstraints ?b))"
    by (simp only: l concat_lraFor_distinct)
  have e: "\<forall>c\<in>set (lraConstraints ?b).
        particleIdx c < length (P ?b) \<and> attachmentIdx c < length (P ?b) \<and>
        \<not> pinned (P ?b ! particleIdx c) \<and> pinned (P ?b ! attachmentIdx c) \<and> 0 \<le> maxDist c"
  proof
    fix c
    assume "c \<in> set (lraConstraints ?b)"
    then have c: "c \<in> set (concat (map (lraFor (P ?b) (attachmentIndices ?b)) [0..<cw * ch]))"
      using l by simp
    from concat_lraFor_elem [OF c]
    have k: "particleIdx c < cw * ch"
      and m: "c \<in> set (lraFor (P ?b) (attachmentIndices ?b) (particleIdx c))"
      by simp_all
    from lraFor_elem [OF m]
    have np: "\<not> pinned (P ?b ! particleIdx c)"
      and a: "attachmentIdx c \<in> set (attachmentIndices ?b)"
      and md: "maxDist c = restDist (P ?b) (particleIdx c) (attachmentIdx c)"
      by simp_all
    from a have "attachmentIdx c < cw * ch \<and> pinned (P ?b ! attachmentIdx c)"
      by (simp only: attach_set)
    moreover have "0 \<le> maxDist c"
      by (simp only: md restDist_def vlength_nonneg)
    ultimately show "particleIdx c < length (P ?b) \<and> attachmentIdx c < length (P ?b) \<and>
        \<not> pinned (P ?b ! particleIdx c) \<and> pinned (P ?b ! attachmentIdx c) \<and> 0 \<le> maxDist c"
      using k np by (simp add: buildScene_length)
  qed
  from d e show ?thesis by (simp only: lraInv_def)
qed

lemma rest_dist_to_first:
  assumes "0 < cw" and "k < cw * ch"
  shows "restDist (P (buildScene cw ch sp s0)) k 0 \<le> \<bar>sp\<bar> * real (cw + ch)"
proof -
  let ?x = "k mod cw" and ?y = "k div cw"
  have x: "?x < cw" using assms(1) by simp
  have y: "?y < ch" using assms(2) by (simp add: less_mult_imp_div_less mult.commute)
  have z: "0 < cw * ch" using assms(2) by linarith
  have ry: "real (ch - 1 - ?y) - real (ch - 1) = - real ?y"
    using y by (simp add: of_nat_diff)
  have "vsub (p (gridParticle cw ch sp k)) (p (gridParticle cw ch sp 0)) =
        Vec3 (real ?x * sp) ((real (ch - 1 - ?y) - real (ch - 1)) * sp) 0"
    using assms(1) by (simp add: gridParticle_p algebra_simps)
  then have "vsub (p (gridParticle cw ch sp k)) (p (gridParticle cw ch sp 0)) =
        Vec3 (real ?x * sp) (- real ?y * sp) 0"
    by (simp only: ry)
  then have "restDist (P (buildScene cw ch sp s0)) k 0 =
        sqrt ((real ?x * sp)\<^sup>2 + (- real ?y * sp)\<^sup>2)"
    using assms(2) z by (simp add: restDist_def grid_nth power2_eq_square)
  also have "\<dots> \<le> \<bar>real ?x * sp\<bar> + \<bar>- real ?y * sp\<bar>"
    by (rule sqrt_sum_squares_le_sum_abs)
  also have "\<dots> = \<bar>sp\<bar> * real (?x + ?y)"
    by (simp add: abs_mult algebra_simps)
  also have "\<dots> \<le> \<bar>sp\<bar> * real (cw + ch)"
    using x y by (intro mult_left_mono) simp_all
  finally show ?thesis .
qed

lemma buildScene_fresh: "buildScene cw ch sp s0 = buildScene cw ch sp s0'"
  by (simp add: buildScene_def scene_all_fields)

subsection \<open>The 3 by 3 grid with spacing 1\<close>

lemma upt9: "[0..<9] = [0, 1, 2, 3, 4, 5, 6, 7, 8 :: nat]"
  by (simp add: upt_conv_Cons)

lemma sqrt_less_pos: "0 < b \<Longrightarrow> sqrt a < b \<longleftrightarrow> a < b * b"
proof -
  assume b: "0 < b"
  then have "sqrt (b * b) = b" by simp
  then have "sqrt a < b \<longleftrightarrow> sqrt a < sqrt (b * b)" by simp
  then show ?thesis by (simp only: real_sqrt_less_iff)
qed

lemma less_sqrt_pos: "0 \<le> b \<Longrightarrow> b < sqrt a \<longleftrightarrow> b * b < a"
proof -
  assume b: "0 \<le> b"
  then have "sqrt (b * b) = b" by simp
  then have "b < sqrt a \<longleftrightarrow> sqrt (b * b) < sqrt a" by simp
  then show ?thesis by (simp only: real_sqrt_less_iff)
qed

lemma grid3_attachmentIndices: "attachmentIndices (buildScene 3 3 1 s0) = [0, 2]"
  by (simp add: buildScene_attachmentIndices upt9 gridParticle_def Let_def)

lemma grid3_P: "P (buildScene 3 3 1 s0) =
  [\<lparr>p = Vec3 (- 1) 2 0, old_p = Vec3 (- 1) 2 0, v = Vec3 0 0 0, w = 0, pinned = True\<rparr>,
   \<lparr>p = Vec3 0 2 0, old_p = Vec3 0 2 0, v = Vec3 0 0 0, w = 1, pinned = False\<rparr>,
   \<lparr>p = Vec3 1 2 0, old_p = Vec3 1 2 0, v = Vec3 0 0 0, w = 0, pinned = True\<rparr>,
   \<lparr>p = Vec3 (- 1) 1 0, old_p = Vec3 (- 1) 1 0, v = Vec3 0 0 0, w = 1, pinned = False\<rparr>,
   \<lparr>p = Vec3 0 1 0, old_p = Vec3 0 1 0, v = Vec3 0 0 0, w = 1, pinned = False\<rparr>,
   \<lparr>p = Vec3 1 1 0, old_p = Vec3 1 1 0, v = Vec3 0 0 0, w = 1, pinned = False\<rparr>,
   \<lparr>p = Vec3 (- 1) 0 0, old_p = Vec3 (- 1) 0 0, v = Vec3 0 0 0, w = 1, pinned = False\<rparr>,
   \<lparr>p = Vec3 0 0 0, old_p = Vec3 0 0 0, v = Vec3 0 0 0, w = 1, pinned = False\<rparr>,
   \<lparr>p = Vec3 1 0 0, old_p = Vec3 1 0 0, v = Vec3 0 0 0, w = 1, pinned = False\<rparr>]"
  by (simp add: buildScene_P upt9 gridParticle_def Let_def)

lemma grid3_lraConstraints:
  "lraConstraints (buildScene 3 3 1 s0) =
     [\<lparr>particleIdx = 1, attachmentIdx = 0, maxDist = 1\<rparr>,
      \<lparr>particleIdx = 3, attachmentIdx = 0, maxDist = 1\<rparr>,
      \<lparr>particleIdx = 4, attachmentIdx = 0, maxDist = sqrt 2\<rparr>,
      \<lparr>particleIdx = 5, attachmentIdx = 2, maxDist = 1\<rparr>,
      \<lparr>particleIdx = 6, attachmentIdx = 0, maxDist = 2\<rparr>,
      \<lparr>particleIdx = 7, attachmentIdx = 0, maxDist = sqrt 5\<rparr>,
      \<lparr>particleIdx = 8, attachmentIdx = 2, maxDist = 2\<rparr>]"
  apply (simp only: buildScene_lraConstraints grid3_attachmentIndices grid3_P)
  apply (simp add: upt9 lraFor_def scanStep_pair restDist_def farAway_def sqrt_less_pos less_sqrt_pos)
  done

lemma grid3_local_count: "length (localConstraints (buildScene 3 3 1 s0)) = 12"
  by (simp add: buildScene_local_count)

section \<open>Properties of the builder\<close>

text \<open>
  Claim C6.  For grid dimensions that are positive and a spacing for which the
  rest distances stay below the sentinel \<^verbatim>\<open>1e30f\<close> (as for the program's constants):
  every LRA constraint belongs to a particle of the grid; a pinned particle has
  none; a free particle \<open>k\<close> has exactly one, whose anchor is a pinned particle,
  whose \<open>maxDist\<close> is the rest distance to that anchor, no pinned particle is
  nearer at rest, and every pinned particle of smaller index is strictly farther.
\<close>

theorem buildScene_lra_nearest:
  assumes "0 < cw" and "0 < ch" and "\<bar>sp\<bar> * real (cw + ch) < farAway" and "k < cw * ch"
  shows "(\<forall>c\<in>set (lraConstraints (buildScene cw ch sp s0)). particleIdx c < cw * ch) \<and>
         (pinned (P (buildScene cw ch sp s0) ! k) \<longrightarrow>
            (\<forall>c\<in>set (lraConstraints (buildScene cw ch sp s0)). particleIdx c \<noteq> k)) \<and>
         (\<not> pinned (P (buildScene cw ch sp s0) ! k) \<longrightarrow>
            (\<exists>c. filter (\<lambda>c. particleIdx c = k) (lraConstraints (buildScene cw ch sp s0)) = [c] \<and>
                 attachmentIdx c < cw * ch \<and>
                 pinned (P (buildScene cw ch sp s0) ! attachmentIdx c) \<and>
                 maxDist c = restDist (P (buildScene cw ch sp s0)) k (attachmentIdx c) \<and>
                 (\<forall>a<cw * ch. pinned (P (buildScene cw ch sp s0) ! a) \<longrightarrow>
                    maxDist c \<le> restDist (P (buildScene cw ch sp s0)) k a \<and>
                    (a < attachmentIdx c \<longrightarrow>
                       maxDist c < restDist (P (buildScene cw ch sp s0)) k a))))"
proof (intro conjI impI)
  let ?b = "buildScene cw ch sp s0"
  show "\<forall>c\<in>set (lraConstraints ?b). particleIdx c < cw * ch"
    using lraInv_buildScene [of cw ch sp s0] by (simp add: lraInv_def buildScene_length)
next
  let ?b = "buildScene cw ch sp s0"
  assume "pinned (P ?b ! k)"
  then have "lraFor (P ?b) (attachmentIndices ?b) k = []"
    by (simp add: lraFor_def)
  then have "filter (\<lambda>c. particleIdx c = k) (lraConstraints ?b) = []"
    using assms(4) by (simp only: buildScene_filter_lra)
  then show "\<forall>c\<in>set (lraConstraints ?b). particleIdx c \<noteq> k"
    by (simp add: filter_empty_conv)
next
  let ?b = "buildScene cw ch sp s0"
  let ?as = "attachmentIndices ?b"
  let ?d = "restDist (P ?b) k"
  assume np: "\<not> pinned (P ?b ! k)"
  have z: "0 < cw * ch" using assms(1,2) by simp
  have "pinned (gridParticle cw ch sp 0)"
    using assms(1) by (simp add: gridParticle_pinned)
  then have "0 \<in> set ?as"
    using z by (simp add: attach_set grid_nth)
  moreover have "?d 0 < farAway"
    using rest_dist_to_first [OF assms(1,4), of sp s0] assms(3) by simp
  ultimately obtain a m where r: "fold (scanStep (P ?b) k) ?as (None, farAway) = (Some a, m)"
    using scan_finds by blast
  from scan_from_None [OF r] obtain pre post where
    sp: "?as = pre @ a # post" and m: "m = ?d a"
    and before: "\<forall>a'\<in>set pre. ?d a < ?d a'"
    and after: "\<forall>a'\<in>set post. ?d a \<le> ?d a'"
    by blast
  let ?c = "\<lparr>particleIdx = k, attachmentIdx = a, maxDist = m\<rparr>"
  have "lraFor (P ?b) ?as k = [?c]"
    using np r by (simp add: lraFor_def)
  then have f: "filter (\<lambda>c. particleIdx c = k) (lraConstraints ?b) = [?c]"
    using assms(4) by (simp only: buildScene_filter_lra)
  have "a \<in> set ?as" using sp by simp
  then have a: "a < cw * ch" "pinned (P ?b ! a)"
    by (simp_all add: attach_set)
  have srt: "sorted_wrt (<) (pre @ a # post)"
    using attach_sorted [of cw ch sp s0] sp by simp
  have all: "\<forall>a'<cw * ch. pinned (P ?b ! a') \<longrightarrow>
               m \<le> ?d a' \<and> (a' < a \<longrightarrow> m < ?d a')"
  proof (intro allI impI)
    fix a'
    assume "a' < cw * ch" and "pinned (P ?b ! a')"
    then have "a' \<in> set ?as" by (simp add: attach_set)
    then have mem: "a' \<in> set pre \<or> a' = a \<or> a' \<in> set post"
      using sp by auto
    have le: "m \<le> ?d a'"
      using mem before after m by auto
    have lt: "a' < a \<longrightarrow> m < ?d a'"
    proof
      assume "a' < a"
      moreover have "\<forall>y\<in>set post. a < y"
        using srt by (simp add: sorted_wrt_append)
      ultimately have "a' \<in> set pre" using mem by auto
      then show "m < ?d a'" using before m by simp
    qed
    from le lt show "m \<le> ?d a' \<and> (a' < a \<longrightarrow> m < ?d a')" by simp
  qed
  have sel: "attachmentIdx ?c = a" "maxDist ?c = m"
    by simp_all
  show "\<exists>c. filter (\<lambda>c. particleIdx c = k) (lraConstraints ?b) = [c] \<and>
                 attachmentIdx c < cw * ch \<and> pinned (P ?b ! attachmentIdx c) \<and>
                 maxDist c = ?d (attachmentIdx c) \<and>
                 (\<forall>a<cw * ch. pinned (P ?b ! a) \<longrightarrow>
                    maxDist c \<le> ?d a \<and> (a < attachmentIdx c \<longrightarrow> maxDist c < ?d a))"
  proof (intro exI [of _ ?c] conjI)
    show "filter (\<lambda>c. particleIdx c = k) (lraConstraints ?b) = [?c]" by (rule f)
    show "attachmentIdx ?c < cw * ch" by (simp only: sel a)
    show "pinned (P ?b ! attachmentIdx ?c)" by (simp only: sel a)
    show "maxDist ?c = ?d (attachmentIdx ?c)" by (simp add: m)
    show "\<forall>a<cw * ch. pinned (P ?b ! a) \<longrightarrow>
            maxDist ?c \<le> ?d a \<and> (a < attachmentIdx ?c \<longrightarrow> maxDist ?c < ?d a)"
      by (simp only: sel) (rule all)
  qed
qed

text \<open>The program's own scene, 30 by 30 with spacing 0.05, at the free particle 31.\<close>

theorem buildScene_lra_nearest_witness:
  "0 < clothW \<and> 0 < clothH \<and> \<bar>spacing\<bar> * real (clothW + clothH) < farAway \<and>
   (31::nat) < clothW * clothH \<and>
   \<not> pinned (P (buildScene clothW clothH spacing exScene) ! 31) \<and>
   (\<exists>c. filter (\<lambda>c. particleIdx c = 31) (lraConstraints (buildScene clothW clothH spacing exScene)) = [c] \<and>
        attachmentIdx c < clothW * clothH \<and>
        pinned (P (buildScene clothW clothH spacing exScene) ! attachmentIdx c) \<and>
        maxDist c = restDist (P (buildScene clothW clothH spacing exScene)) 31 (attachmentIdx c) \<and>
        (\<forall>a<clothW * clothH. pinned (P (buildScene clothW clothH spacing exScene) ! a) \<longrightarrow>
           maxDist c \<le> restDist (P (buildScene clothW clothH spacing exScene)) 31 a \<and>
           (a < attachmentIdx c \<longrightarrow>
              maxDist c < restDist (P (buildScene clothW clothH spacing exScene)) 31 a)))"
proof -
  have h1: "0 < clothW" and h2: "0 < clothH" by (simp_all add: clothW_def clothH_def)
  have h3: "\<bar>spacing\<bar> * real (clothW + clothH) < farAway"
    by (simp add: spacing_def clothW_def clothH_def farAway_def)
  have h4: "(31::nat) < clothW * clothH" by (simp add: clothW_def clothH_def)
  have "P (buildScene clothW clothH spacing exScene) ! 31 = gridParticle clothW clothH spacing 31"
    using h4 by (rule grid_nth)
  moreover have "\<not> pinned (gridParticle clothW clothH spacing 31)"
    by (simp add: gridParticle_pinned clothW_def)
  ultimately have h5: "\<not> pinned (P (buildScene clothW clothH spacing exScene) ! 31)"
    by simp
  from buildScene_lra_nearest [OF h1 h2 h3 h4, of exScene] h5
  have "\<exists>c. filter (\<lambda>c. particleIdx c = 31) (lraConstraints (buildScene clothW clothH spacing exScene)) = [c] \<and>
        attachmentIdx c < clothW * clothH \<and>
        pinned (P (buildScene clothW clothH spacing exScene) ! attachmentIdx c) \<and>
        maxDist c = restDist (P (buildScene clothW clothH spacing exScene)) 31 (attachmentIdx c) \<and>
        (\<forall>a<clothW * clothH. pinned (P (buildScene clothW clothH spacing exScene) ! a) \<longrightarrow>
           maxDist c \<le> restDist (P (buildScene clothW clothH spacing exScene)) 31 a \<and>
           (a < attachmentIdx c \<longrightarrow>
              maxDist c < restDist (P (buildScene clothW clothH spacing exScene)) 31 a))"
    by blast
  with h1 h2 h3 h4 h5 show ?thesis by blast
qed

text \<open>
  Claim C8, amended.  Built with \<open>cw = ch = 3\<close> and spacing 1, the scene has both
  top corners pinned (indices 0 and 2), so 2 anchors, 12 local constraints and 7
  LRA constraints, one per free particle; each \<open>maxDist\<close> is the distance from the
  particle's grid coordinate to the nearer pinned corner (the first on a tie):
  1 for the neighbours of a corner, \<open>sqrt 2\<close> for the centre, 2 and \<open>sqrt 5\<close> in the
  bottom row.
\<close>

theorem build_3x3_scenario:
  "map pinned (P (buildScene 3 3 1 s0)) =
     [True, False, True, False, False, False, False, False, False] \<and>
   attachmentIndices (buildScene 3 3 1 s0) = [0, 2] \<and>
   length (localConstraints (buildScene 3 3 1 s0)) = 12 \<and>
   lraConstraints (buildScene 3 3 1 s0) =
     [\<lparr>particleIdx = 1, attachmentIdx = 0, maxDist = 1\<rparr>,
      \<lparr>particleIdx = 3, attachmentIdx = 0, maxDist = 1\<rparr>,
      \<lparr>particleIdx = 4, attachmentIdx = 0, maxDist = sqrt 2\<rparr>,
      \<lparr>particleIdx = 5, attachmentIdx = 2, maxDist = 1\<rparr>,
      \<lparr>particleIdx = 6, attachmentIdx = 0, maxDist = 2\<rparr>,
      \<lparr>particleIdx = 7, attachmentIdx = 0, maxDist = sqrt 5\<rparr>,
      \<lparr>particleIdx = 8, attachmentIdx = 2, maxDist = 2\<rparr>]"
  by (simp add: grid3_P grid3_attachmentIndices grid3_local_count grid3_lraConstraints)

text \<open>
  The claim as written fails: the builder also pins grid coordinate (2, 0), so the
  3 by 3 scene has two anchors, not one, and 7 LRA constraints, not 8.
\<close>

theorem build_3x3_counterexample:
  "length (attachmentIndices (buildScene 3 3 1 exScene)) \<noteq> 1 \<and>
   pinned (P (buildScene 3 3 1 exScene) ! idx 3 2 0) \<and>
   length (lraConstraints (buildScene 3 3 1 exScene)) \<noteq> 8"
  by (simp add: grid3_P grid3_attachmentIndices grid3_lraConstraints idx_def)

section \<open>Properties of a run\<close>

text \<open>
  Claim C2.  A particle that \<^verbatim>\<open>buildScene\<close> pinned has, after any sequence of
  ticks with any iteration counts, LRA flags and slack values, the position it
  was built with; indeed the whole particle is as built.
\<close>

theorem pinned_never_moves:
  assumes "k < length (P (buildScene cw ch sp s0))"
    and "pinned (P (buildScene cw ch sp s0) ! k)"
  shows "p (P (ticks ts (buildScene cw ch sp s0)) ! k) = p (P (buildScene cw ch sp s0) ! k) \<and>
         P (ticks ts (buildScene cw ch sp s0)) ! k = P (buildScene cw ch sp s0) ! k"
proof -
  have "pinsKept (buildScene cw ch sp s0) (ticks ts (buildScene cw ch sp s0))"
    using lraInv_buildScene by (rule pinsKept_ticks)
  with assms show ?thesis by (simp add: pinsKept_def)
qed

text \<open>Particle 0 of the program's own scene is pinned.\<close>

theorem pinned_never_moves_witness:
  "(0::nat) < length (P (buildScene clothW clothH spacing exScene)) \<and>
   pinned (P (buildScene clothW clothH spacing exScene) ! 0) \<and>
   p (P (ticks [(5, True, 1), (1, False, 12 / 10)] (buildScene clothW clothH spacing exScene)) ! 0) =
     p (P (buildScene clothW clothH spacing exScene) ! 0)"
proof -
  have a: "(0::nat) < length (P (buildScene clothW clothH spacing exScene))"
    by (simp add: buildScene_length clothW_def clothH_def)
  have "P (buildScene clothW clothH spacing exScene) ! 0 = gridParticle clothW clothH spacing 0"
    by (rule grid_nth) (simp add: clothW_def clothH_def)
  moreover have "pinned (gridParticle clothW clothH spacing 0)"
    by (simp add: gridParticle_def Let_def)
  ultimately have b: "pinned (P (buildScene clothW clothH spacing exScene) ! 0)"
    by simp
  from pinned_never_moves [OF a b] a b show ?thesis by blast
qed

end
